theory Spec2Isabelle
  imports Complex_Main "HOL-Library.Word"
begin

section \<open>Common types\<close>

text \<open>
  \<open>common.Address\<close> is a 20-byte array and \<open>common.Hash\<close> a 32-byte array. An address is
  only ever compared, so it is a 160-bit word (the bytes read big-endian); a hash is the
  list of its bytes, first byte first, because the code reads its hex string.
  Go's \<open>uint64\<close> is a 64-bit word: \<open>+\<close> and \<open>-\<close> wrap.
\<close>

type_synonym byte = "8 word"
type_synonym address = "160 word"
type_synonym hash = "byte list"
type_synonym uint64 = "64 word"

text \<open>
  Errors that the functions return as Go \<open>error\<close> values, and run-time panics. A function
  that can panic returns \<open>panic + 'a\<close>; a panic carries no state, since it unwinds the call.
\<close>

datatype error =
    ErrSyntax
  | ErrRange
  | ErrNoValidator
  | ErrSkipRefresh
  | ErrBackend string
  | ErrCantCreateStorageTrie error

datatype panic =
    NilDereference
  | IndexOutOfRange
  | DivideByZero
  | IntnInvalidArgument
  | CriticalExit

section \<open>The shuffle seed (weighted.go, lines 305-315 and 581-588)\<close>

text \<open>
  Modelled from the spec: \<open>common.Hash.Hex\<close> is not under src/. The hex string of a hash is
  \<open>0x\<close> followed by two lower-case hex digits for every byte, first byte first; the source
  itself compares \<open>prevHash.Hex()\<close> with \<open>0x\<close> followed by 64 zeros (line 379).
\<close>

definition hexdigits :: string where
  "hexdigits = ''0123456789abcdef''"

definition hexByte :: "byte \<Rightarrow> string" where
  "hexByte b = [hexdigits ! (unat b div 16), hexdigits ! (unat b mod 16)]"

definition Hex :: "hash \<Rightarrow> string" where
  "Hex h = ''0x'' @ concat (map hexByte h)"

text \<open>
  The number a hash stands for, as \<open>Hash.Big()\<close> reads it (line 62): the bytes in
  big-endian order.
\<close>

definition hashBig :: "hash \<Rightarrow> nat" where
  "hashBig h = foldl (\<lambda>a b. a * 256 + unat b) 0 h"

text \<open>\<open>strings.TrimPrefix\<close>.\<close>

definition TrimPrefix :: "string \<Rightarrow> string \<Rightarrow> string" where
  "TrimPrefix s p = (if take (length p) s = p then drop (length p) s else s)"

text \<open>
  \<open>strconv.ParseInt(s, 16, 64)\<close>: an optional sign, then at least one hex digit of either
  case; any other character is a syntax error, a value outside the signed 64-bit range a
  range error.
\<close>

definition hexVal :: "char \<Rightarrow> nat option" where
  "hexVal c = (let n = (of_char c :: nat) in
     if 48 \<le> n \<and> n \<le> 57 then Some (n - 48)
     else if 97 \<le> n \<and> n \<le> 102 then Some (n - 97 + 10)
     else if 65 \<le> n \<and> n \<le> 70 then Some (n - 65 + 10)
     else None)"

fun parseDigits :: "nat \<Rightarrow> string \<Rightarrow> error + nat" where
  "parseDigits n [] = Inr n"
| "parseDigits n (c # cs) =
     (case hexVal c of
        None \<Rightarrow> Inl ErrSyntax
      | Some d \<Rightarrow> if n * 16 + d \<ge> 2 ^ 64 then Inl ErrRange else parseDigits (n * 16 + d) cs)"

definition ParseInt16 :: "string \<Rightarrow> error + int" where
  "ParseInt16 s =
     (case s of
        [] \<Rightarrow> Inl ErrSyntax
      | c # cs \<Rightarrow>
          let neg = (c = CHR ''-'');
              ds = (if c = CHR ''+'' \<or> c = CHR ''-'' then cs else s)
          in if ds = [] then Inl ErrSyntax
             else case parseDigits 0 ds of
                    Inl e \<Rightarrow> Inl e
                  | Inr un \<Rightarrow>
                      if \<not> neg \<and> un \<ge> 2 ^ 63 then Inl ErrRange
                      else if neg \<and> un > 2 ^ 63 then Inl ErrRange
                      else Inr (if neg then (- (int un)) else (int un)))"

text \<open>
  The seed of \<open>SubListWithProposer\<close> (from \<open>prevHash\<close>) and of \<open>Refresh\<close> (from \<open>hash\<close>); the
  two functions hold the same four statements.
\<close>

definition hashSeed :: "hash \<Rightarrow> error + int" where
  "hashSeed h =
     (let hashstring = TrimPrefix (Hex h) ''0x'';
          hashstring = (if length hashstring > 15 then take 15 hashstring else hashstring)
      in ParseInt16 hashstring)"

text \<open>Auxiliary notions for the proofs about the seed: base-16 values of digit lists.\<close>

definition val16 :: "nat \<Rightarrow> nat list \<Rightarrow> nat" where
  "val16 n ds = foldl (\<lambda>a d. a * 16 + d) n ds"

definition nibbles :: "hash \<Rightarrow> nat list" where
  "nibbles h = concat (map (\<lambda>b. [unat b div 16, unat b mod 16]) h)"

section \<open>Validators and the council (weighted.go, lines 41-110)\<close>

text \<open>
  A validator handle is modelled by the value of the validator it points to; \<open>atomic.Value\<close>
  and \<open>atomic.LoadUint64\<close> cells are plain fields. A handle that may be nil (an entry of
  \<open>proposers\<close>, the \<open>proposer\<close> cell before its first \<open>Store\<close>) is an option. The council's
  \<open>policy\<close> is always \<open>WeightedRandom\<close> and its \<open>selector\<close> always
  \<open>weightedRandomProposer\<close> (\<open>NewWeightedCouncil\<close> sets no other), so neither is a field; the
  mutex is not modelled.
\<close>

record weightedValidator =
  address :: address
  rewardAddress :: address
  votingPower :: uint64
  weight :: uint64

record StakingInfo =
  BlockNum :: uint64
  CouncilNodeAddrs :: "address list"
  CouncilRewardAddrs :: "address list"
  CouncilStakingAmounts :: "uint64 list"
  UseGini :: bool
  Gini :: real

record weightedCouncil =
  subSize :: uint64
  validators :: "weightedValidator list"
  proposer :: "weightedValidator option"
  proposers :: "weightedValidator option list"
  proposersBlockNum :: uint64
  stakingInfo :: "StakingInfo option"
  blockNum :: uint64

text \<open>
  What the council calls and src/ does not hold, taken as parameters:
  \<open>params.CalcProposerBlockNumber\<close>, \<open>reward.GetStakingInfo\<close>,
  \<open>reward.CalcGiniCoefficient\<close>, \<open>math.Pow\<close>, and the generator of \<open>math/rand\<close>
  (\<open>rand.New(rand.NewSource(seed))\<close> and the result of \<open>Intn\<close> with the generator's next
  state). A \<open>float64\<close> is the real number it stands for; \<open>fl\<close> is the rounding of a real
  result to the nearest \<open>float64\<close>, applied after every floating-point operation.
\<close>

record 'r env =
  CalcProposerBlockNumber :: "uint64 \<Rightarrow> uint64"
  GetStakingInfo :: "uint64 \<Rightarrow> StakingInfo option"
  CalcGiniCoefficient :: "real list \<Rightarrow> real"
  mathPow :: "real \<Rightarrow> real \<Rightarrow> real"
  fl :: "real \<Rightarrow> real"
  NewSource :: "int \<Rightarrow> 'r"
  randIntn :: "'r \<Rightarrow> nat \<Rightarrow> nat \<times> 'r"

text \<open>\<open>rand.Intn\<close> panics on an argument that is not positive.\<close>

definition Intn :: "'r env \<Rightarrow> 'r \<Rightarrow> nat \<Rightarrow> panic + (nat \<times> 'r)" where
  "Intn env r n = (if n = 0 then Inl IntnInvalidArgument else Inr (randIntn env r n))"

definition newWeightedValidator ::
  "address \<Rightarrow> address \<Rightarrow> uint64 \<Rightarrow> uint64 \<Rightarrow> weightedValidator" where
  "newWeightedValidator addr reward votingpower w =
     \<lparr>address = addr, rewardAddress = reward, votingPower = votingpower, weight = w\<rparr>"

text \<open>Modelled from the spec: \<open>emptyAddress\<close> is not under src/; the zero address.\<close>

definition emptyAddress :: "address \<Rightarrow> bool" where
  "emptyAddress addr = (addr = 0)"

text \<open>
  Modelled from the spec: \<open>StakingInfo.GetIndexByNodeAddress\<close> is not under src/; the
  staking index of a node address, \<open>None\<close> when the address is not a council node.
\<close>

fun indexOfFrom :: "nat \<Rightarrow> address list \<Rightarrow> address \<Rightarrow> nat option" where
  "indexOfFrom i [] a = None"
| "indexOfFrom i (x # xs) a = (if x = a then Some i else indexOfFrom (Suc i) xs a)"

definition GetIndexByNodeAddress :: "StakingInfo \<Rightarrow> address \<Rightarrow> nat option" where
  "GetIndexByNodeAddress si a = indexOfFrom 0 (CouncilNodeAddrs si) a"

subsection \<open>Lookups (lines 401-433)\<close>

fun getByAddressFrom ::
  "int \<Rightarrow> weightedValidator list \<Rightarrow> address \<Rightarrow> int \<times> weightedValidator option" where
  "getByAddressFrom i [] addr = (- 1, None)"
| "getByAddressFrom i (val # vals) addr =
     (if addr = address val then (i, Some val) else getByAddressFrom (i + 1) vals addr)"

definition getByAddress :: "weightedCouncil \<Rightarrow> address \<Rightarrow> int \<times> weightedValidator option" where
  "getByAddress valSet addr = getByAddressFrom 0 (validators valSet) addr"

definition GetByAddress :: "weightedCouncil \<Rightarrow> address \<Rightarrow> int \<times> weightedValidator option" where
  "GetByAddress valSet addr = getByAddress valSet addr"

text \<open>\<open>GetProposer\<close>: the type assertion on an empty \<open>atomic.Value\<close> panics.\<close>

definition GetProposer :: "weightedCouncil \<Rightarrow> panic + weightedValidator" where
  "GetProposer valSet = (case proposer valSet of None \<Rightarrow> Inl NilDereference | Some v \<Rightarrow> Inr v)"

subsection \<open>The selector (lines 248-271)\<close>

text \<open>
  The result is a handle that may be nil: no proposers, or a nil entry of \<open>proposers\<close>.
  The sum is taken in \<open>uint64\<close>; the remainder is by \<open>len(proposers)\<close>, a positive \<open>int\<close>.
\<close>

definition weightedRandomProposer ::
  "'r env \<Rightarrow> weightedCouncil \<Rightarrow> address \<Rightarrow> uint64 \<Rightarrow> weightedValidator option" where
  "weightedRandomProposer env valSet lastProposer rnd =
     (let numProposers = length (proposers valSet) in
      if numProposers = 0 then None
      else
        let bn = blockNum valSet;
            picker = unat (bn + rnd - CalcProposerBlockNumber env (bn + 1)) mod numProposers
        in proposers valSet ! picker)"

subsection \<open>CalcProposer (lines 435-468)\<close>

definition chooseProposerByRoundRobin ::
  "weightedCouncil \<Rightarrow> address \<Rightarrow> uint64 \<Rightarrow> panic + weightedValidator" where
  "chooseProposerByRoundRobin valSet lastProposer rnd =
     (let seed =
            (if emptyAddress lastProposer then rnd
             else
               let offset = (case getByAddress valSet lastProposer of
                               (idx, Some val) \<Rightarrow> idx
                             | (idx, None) \<Rightarrow> 0)
               in word_of_int offset + rnd)
      in if validators valSet = [] then Inl DivideByZero
         else Inr (validators valSet ! (unat seed mod length (validators valSet))))"

definition CalcProposer ::
  "'r env \<Rightarrow> weightedCouncil \<Rightarrow> address \<Rightarrow> uint64 \<Rightarrow> panic + weightedCouncil" where
  "CalcProposer env valSet lastProposer rnd =
     (case weightedRandomProposer env valSet lastProposer rnd of
        Some newProposer \<Rightarrow> Inr (valSet\<lparr>proposer := Some newProposer\<rparr>)
      | None \<Rightarrow>
          if length (validators valSet) = 0
          then Inr (valSet\<lparr>proposer := Some (newWeightedValidator lastProposer 0 0 0)\<rparr>)
          else (case chooseProposerByRoundRobin valSet lastProposer rnd of
                  Inl p \<Rightarrow> Inl p
                | Inr newProposer \<Rightarrow> Inr (valSet\<lparr>proposer := Some newProposer\<rparr>)))"

subsection \<open>The shuffle loop (lines 370-373 and 734-737)\<close>

text \<open>
  \<open>for i := 0; i < n; i++ { randIndex := picker.Intn(n); xs[i], xs[randIndex] = xs[randIndex], xs[i] }\<close>,
  with the generator's state passed along. An index outside the slice panics.
\<close>

function shuffleLoop :: "'r env \<Rightarrow> nat \<Rightarrow> nat \<Rightarrow> nat list \<Rightarrow> 'r \<Rightarrow> panic + nat list" where
  "shuffleLoop env i n xs r =
     (if i < n then
        (case Intn env r n of
           Inl p \<Rightarrow> Inl p
         | Inr (randIndex, r') \<Rightarrow>
             if i < length xs \<and> randIndex < length xs
             then shuffleLoop env (Suc i) n (xs[i := xs ! randIndex, randIndex := xs ! i]) r'
             else Inl IndexOutOfRange)
      else Inr xs)"
  by pat_completeness auto
termination
  by (relation "measure (\<lambda>(env, i, n, xs, r). n - i)") auto

declare shuffleLoop.simps [simp del]

subsection \<open>SubListWithProposer (lines 293-385)\<close>

text \<open>
  The loop that looks for the next proposer (lines 330-338). It has no bound, so it is a
  partial function: \<open>None\<close> is the call that never returns. \<open>nextProposer.Address()\<close> on a
  nil handle panics.
\<close>

partial_function (option) nextProposerLoop ::
  "'r env \<Rightarrow> weightedCouncil \<Rightarrow> address \<Rightarrow> weightedValidator \<Rightarrow> uint64 \<Rightarrow> uint64
   \<Rightarrow> (panic + weightedValidator) option" where
  "nextProposerLoop env valSet p committee0 rnd nextProposerIdx =
     (case weightedRandomProposer env valSet p (rnd + nextProposerIdx) of
        None \<Rightarrow> Some (Inl NilDereference)
      | Some nextProposer \<Rightarrow>
          if address committee0 \<noteq> address nextProposer then Some (Inr nextProposer)
          else nextProposerLoop env valSet p committee0 rnd (nextProposerIdx + 1))"

declare nextProposerLoop.simps [code]

text \<open>
  Lines 340-384, once slots 0 and 1 are known. \<open>indexs\<close> has \<open>limit - 2\<close> cells and receives
  every index of a validator that is neither the proposer's nor the next proposer's: one
  index too many panics. The last loop reads \<open>subSize - 2\<close> cells of \<open>indexs\<close>, fewer than it
  has, since \<open>subSize < limit\<close> here.
\<close>

definition pickCommittee ::
  "'r env \<Rightarrow> weightedCouncil \<Rightarrow> int \<Rightarrow> weightedValidator \<Rightarrow> weightedValidator
   \<Rightarrow> panic + weightedValidator list" where
  "pickCommittee env valSet seed committee0 committee1 =
     (let proposerIdx = fst (getByAddress valSet (address committee0));
          nextproposerIdx = fst (getByAddress valSet (address committee1));
          limit = length (validators valSet);
          pickSize = limit - 2;
          cands = filter (\<lambda>i. int i \<noteq> proposerIdx \<and> int i \<noteq> nextproposerIdx) [0..<limit]
      in if limit < 2 \<or> pickSize < length cands then Inl IndexOutOfRange
         else
           (case shuffleLoop env 0 pickSize (cands @ replicate (pickSize - length cands) 0)
                   (NewSource env seed) of
              Inl p \<Rightarrow> Inl p
            | Inr indexs \<Rightarrow>
                Inr ([committee0, committee1] @
                     map (\<lambda>i. validators valSet ! i) (take (unat (subSize valSet) - 2) indexs))))"

definition SubListWithProposer ::
  "'r env \<Rightarrow> weightedCouncil \<Rightarrow> hash \<Rightarrow> address \<Rightarrow> uint64
   \<Rightarrow> (panic + weightedValidator list) option" where
  "SubListWithProposer env valSet prevHash p rnd =
     (if length (validators valSet) \<le> unat (subSize valSet) then Some (Inr (validators valSet))
      else
        (case hashSeed prevHash of
           Inl err \<Rightarrow> Some (Inr (validators valSet))
         | Inr seed \<Rightarrow>
             (case snd (getByAddress valSet p) of
                None \<Rightarrow> Some (Inr (validators valSet))
              | Some proposerValidator \<Rightarrow>
                  if subSize valSet = 0 then Some (Inl IndexOutOfRange)
                  else if subSize valSet = 1 then Some (Inr [proposerValidator])
                  else
                    (case nextProposerLoop env valSet p proposerValidator rnd 1 of
                       None \<Rightarrow> None
                     | Some (Inl e) \<Rightarrow> Some (Inl e)
                     | Some (Inr nextProposer) \<Rightarrow>
                         Some (pickCommittee env valSet seed proposerValidator nextProposer)))))"

definition SubList ::
  "'r env \<Rightarrow> weightedCouncil \<Rightarrow> hash \<Rightarrow> uint64 \<Rightarrow> (panic + weightedValidator list) option" where
  "SubList env valSet prevHash rnd =
     (case GetProposer valSet of
        Inl e \<Rightarrow> Some (Inl e)
      | Inr v \<Rightarrow> SubListWithProposer env valSet prevHash (address v) rnd)"

subsection \<open>Membership changes (lines 470-521)\<close>

text \<open>
  Modelled from the spec: the order of \<open>sort.Sort(valSet.validators)\<close>, whose \<open>Less\<close> is
  not under src/, is the order of the addresses.
\<close>

definition sortValidators :: "weightedValidator list \<Rightarrow> weightedValidator list" where
  "sortValidators vals = sort_key address vals"

definition AddValidator :: "weightedCouncil \<Rightarrow> address \<Rightarrow> bool \<times> weightedCouncil" where
  "AddValidator valSet addr =
     (if addr \<in> set (map address (validators valSet)) then (False, valSet)
      else (True, valSet\<lparr>validators :=
              sortValidators (validators valSet @ [newWeightedValidator addr 0 1000 0])\<rparr>))"

fun removeValidatorFromProposers ::
  "address \<Rightarrow> weightedValidator option list \<Rightarrow> panic + weightedValidator option list" where
  "removeValidatorFromProposers addr [] = Inr []"
| "removeValidatorFromProposers addr (None # vs) = Inl NilDereference"
| "removeValidatorFromProposers addr (Some v # vs) =
     (case removeValidatorFromProposers addr vs of
        Inl p \<Rightarrow> Inl p
      | Inr newProposers \<Rightarrow>
          Inr (if address v \<noteq> addr then Some v # newProposers else newProposers))"

fun removeFirst :: "address \<Rightarrow> weightedValidator list \<Rightarrow> weightedValidator list option" where
  "removeFirst addr [] = None"
| "removeFirst addr (v # vs) =
     (if address v = addr then Some vs
      else (case removeFirst addr vs of None \<Rightarrow> None | Some vs' \<Rightarrow> Some (v # vs')))"

definition RemoveValidator ::
  "weightedCouncil \<Rightarrow> address \<Rightarrow> panic + (bool \<times> weightedCouncil)" where
  "RemoveValidator valSet addr =
     (case removeFirst addr (validators valSet) of
        None \<Rightarrow> Inr (False, valSet)
      | Some vals \<Rightarrow>
          (case removeValidatorFromProposers addr (proposers valSet) of
             Inl p \<Rightarrow> Inl p
           | Inr newProposers \<Rightarrow>
               Inr (True, valSet\<lparr>validators := vals, proposers := newProposers\<rparr>)))"

definition ReplaceValidators ::
  "weightedCouncil \<Rightarrow> weightedValidator list \<Rightarrow> bool \<times> weightedCouncil" where
  "ReplaceValidators valSet vals = (True, valSet\<lparr>validators := vals\<rparr>)"

subsection \<open>RecoverWeightedCouncilProposer (lines 112-132)\<close>

text \<open>
  Each round appends the handle that \<open>GetByAddress\<close> returned, nil or not, and then
  evaluates \<open>val.Address().String()\<close> as an argument of \<open>logger.Trace\<close>.
\<close>

fun recoverLoop ::
  "weightedCouncil \<Rightarrow> address list \<Rightarrow> weightedValidator option list
   \<Rightarrow> panic + weightedValidator option list" where
  "recoverLoop valSet [] ps = Inr ps"
| "recoverLoop valSet (proposerAddr # rest) ps =
     (let val = snd (GetByAddress valSet proposerAddr);
          ps' = ps @ [val]
      in case val of
           None \<Rightarrow> Inl NilDereference
         | Some v \<Rightarrow> recoverLoop valSet rest ps')"

definition RecoverWeightedCouncilProposer ::
  "weightedCouncil \<Rightarrow> address list \<Rightarrow> panic + weightedCouncil" where
  "RecoverWeightedCouncilProposer valSet proposerAddrs =
     (case recoverLoop valSet proposerAddrs [] of
        Inl p \<Rightarrow> Inl p
      | Inr ps \<Rightarrow> Inr (valSet\<lparr>proposers := ps\<rparr>))"

subsection \<open>Refresh (lines 559-747)\<close>

text \<open>
  \<open>math.Round\<close> rounds half away from zero and its result is a \<open>float64\<close> again. The
  conversion \<open>uint64(x)\<close> of a \<open>float64\<close> drops the fraction; outside the range of \<open>uint64\<close>
  Go leaves its result to the implementation, and the model wraps. \<open>float64(n)\<close> of a
  \<open>uint64\<close> rounds to the nearest \<open>float64\<close>.
\<close>

definition Round :: "real \<Rightarrow> real" where
  "Round x = (if x < 0 then - of_int \<lfloor>- x + 1 / 2\<rfloor> else of_int \<lfloor>x + 1 / 2\<rfloor>)"

definition float64ToUint64 :: "real \<Rightarrow> uint64" where
  "float64ToUint64 x = word_of_int (if x < 0 then \<lceil>x\<rceil> else \<lfloor>x\<rfloor>)"

definition uint64ToFloat64 :: "'r env \<Rightarrow> uint64 \<Rightarrow> real" where
  "uint64ToFloat64 env n = fl env (real (unat n))"

text \<open>
  The first loop of \<open>getStakingAmountsOfValidators\<close> (lines 623-639): the validators with
  their reward addresses set, their staking amounts, and \<open>addedStaking\<close>. Every validator
  of the model is a \<open>weightedValidator\<close>, so the type assertion of line 624 holds.
\<close>

fun stakingOfValidators ::
  "'r env \<Rightarrow> StakingInfo \<Rightarrow> weightedValidator list \<Rightarrow> bool list
   \<Rightarrow> panic + (weightedValidator list \<times> real list \<times> bool list)" where
  "stakingOfValidators env si [] addedStaking = Inr ([], [], addedStaking)"
| "stakingOfValidators env si (val # vals) addedStaking =
     (case GetIndexByNodeAddress si (address val) of
        Some sIdx \<Rightarrow>
          if sIdx < length (CouncilRewardAddrs si) \<and> sIdx < length (CouncilStakingAmounts si)
             \<and> sIdx < length addedStaking
          then
            (case stakingOfValidators env si vals (addedStaking[sIdx := True]) of
               Inl p \<Rightarrow> Inl p
             | Inr (ws, amounts, added) \<Rightarrow>
                 Inr (val\<lparr>rewardAddress := CouncilRewardAddrs si ! sIdx\<rparr> # ws,
                      uint64ToFloat64 env (CouncilStakingAmounts si ! sIdx) # amounts,
                      added))
          else Inl IndexOutOfRange
      | None \<Rightarrow>
          (case stakingOfValidators env si vals addedStaking of
             Inl p \<Rightarrow> Inl p
           | Inr (ws, amounts, added) \<Rightarrow> Inr (val\<lparr>rewardAddress := 0\<rparr> # ws, 0 # amounts, added)))"

text \<open>
  The inner loop of lines 645-650: the index of the first validator whose reward address
  is the one looked for.
\<close>

fun firstWithReward :: "nat \<Rightarrow> weightedValidator list \<Rightarrow> address \<Rightarrow> nat option" where
  "firstWithReward i [] a = None"
| "firstWithReward i (val # vals) a =
     (if rewardAddress val = a then Some i else firstWithReward (Suc i) vals a)"

text \<open>
  The second loop (lines 641-651) over the staking indices: a staking entry that no
  validator claimed by its node address goes to the first validator with its reward
  address. The reward address of the entry is read once a validator is there to compare.
\<close>

fun addUnclaimedStaking ::
  "'r env \<Rightarrow> StakingInfo \<Rightarrow> weightedValidator list \<Rightarrow> nat list \<Rightarrow> bool list \<Rightarrow> real list
   \<Rightarrow> panic + real list" where
  "addUnclaimedStaking env si ws [] addedStaking amounts = Inr amounts"
| "addUnclaimedStaking env si ws (sIdx # rest) addedStaking amounts =
     (if addedStaking ! sIdx \<or> ws = [] then addUnclaimedStaking env si ws rest addedStaking amounts
      else if length (CouncilRewardAddrs si) \<le> sIdx then Inl IndexOutOfRange
      else
        (case firstWithReward 0 ws (CouncilRewardAddrs si ! sIdx) of
           None \<Rightarrow> addUnclaimedStaking env si ws rest addedStaking amounts
         | Some vIdx \<Rightarrow>
             if length (CouncilStakingAmounts si) \<le> sIdx \<or> length amounts \<le> vIdx
             then Inl IndexOutOfRange
             else addUnclaimedStaking env si ws rest addedStaking
                    (amounts[vIdx := fl env (amounts ! vIdx +
                        uint64ToFloat64 env (CouncilStakingAmounts si ! sIdx))])))"

definition getStakingAmountsOfValidators ::
  "'r env \<Rightarrow> weightedCouncil \<Rightarrow> StakingInfo \<Rightarrow> panic + (weightedValidator list \<times> real list)" where
  "getStakingAmountsOfValidators env valSet si =
     (case stakingOfValidators env si (validators valSet)
             (replicate (length (CouncilNodeAddrs si)) False) of
        Inl p \<Rightarrow> Inl p
      | Inr (ws, amounts, addedStaking) \<Rightarrow>
          (case addUnclaimedStaking env si ws [0..<length addedStaking] addedStaking amounts of
             Inl p \<Rightarrow> Inl p
           | Inr amounts' \<Rightarrow> Inr (ws, amounts')))"

text \<open>
  \<open>calcTotalAmount\<close> (lines 659-686) returns the total and, as the source writes them in
  place, the staking amounts and the staking information with its \<open>Gini\<close>. \<open>Refresh\<close>
  calls it with as many staking amounts as validators, so \<open>stakingAmounts[vIdx]\<close> is in
  range.
\<close>

definition calcTotalAmount ::
  "'r env \<Rightarrow> weightedValidator list \<Rightarrow> StakingInfo \<Rightarrow> real list
   \<Rightarrow> real \<times> real list \<times> StakingInfo" where
  "calcTotalAmount env ws si stakingAmounts =
     (if length (CouncilNodeAddrs si) = 0 then (0, stakingAmounts, si)
      else if UseGini si then
        (let tempStakingAmounts =
               map snd (filter (\<lambda>(val, a). GetIndexByNodeAddress si (address val) \<noteq> None)
                          (zip ws stakingAmounts));
             g = CalcGiniCoefficient env tempStakingAmounts;
             amounts = map (\<lambda>a. Round (mathPow env a (fl env (1 / fl env (1 + g)))))
                         stakingAmounts
         in (foldl (\<lambda>t a. fl env (t + a)) 0 amounts, amounts, si\<lparr>Gini := g\<rparr>))
      else (foldl (\<lambda>t a. fl env (t + a)) 0 stakingAmounts, stakingAmounts, si))"

text \<open>
  \<open>calcWeight\<close> (lines 689-708): the \<open>float64\<close> expression
  \<open>stakingAmounts[i] * 100 / totalStaking\<close>, one validator's weight, then the loop.
\<close>

definition stakeShare :: "'r env \<Rightarrow> real \<Rightarrow> real \<Rightarrow> real" where
  "stakeShare env stakingAmount totalStaking =
     fl env (fl env (stakingAmount * 100) / totalStaking)"

definition weightOf :: "'r env \<Rightarrow> real \<Rightarrow> real \<Rightarrow> uint64" where
  "weightOf env stakingAmount totalStaking =
     (let w = float64ToUint64 (Round (stakeShare env stakingAmount totalStaking))
      in if w \<le> 0 then 1 else w)"

definition calcWeight ::
  "'r env \<Rightarrow> weightedValidator list \<Rightarrow> real list \<Rightarrow> real \<Rightarrow> panic + weightedValidator list" where
  "calcWeight env ws stakingAmounts totalStaking =
     (if totalStaking > 0 then
        (if length stakingAmounts < length ws then Inl IndexOutOfRange
         else Inr (map (\<lambda>(val, a). val\<lparr>weight := weightOf env a totalStaking\<rparr>)
                     (zip ws stakingAmounts)))
      else Inr (map (\<lambda>val. val\<lparr>weight := 0\<rparr>) ws))"

text \<open>\<open>refreshProposers\<close> (lines 710-747).\<close>

definition candidateIdxs :: "weightedValidator list \<Rightarrow> nat list" where
  "candidateIdxs vals =
     concat (map (\<lambda>index. replicate (unat (weight (vals ! index))) index) [0..<length vals])"

definition refreshProposers ::
  "'r env \<Rightarrow> weightedCouncil \<Rightarrow> int \<Rightarrow> uint64 \<Rightarrow> panic + weightedCouncil" where
  "refreshProposers env valSet seed bn =
     (let candidateValsIdx =
            (if length (candidateIdxs (validators valSet)) = 0
             then [0..<length (validators valSet)]
             else candidateIdxs (validators valSet));
          limit = length candidateValsIdx
      in case shuffleLoop env 0 limit candidateValsIdx (NewSource env seed) of
           Inl p \<Rightarrow> Inl p
         | Inr shuffled \<Rightarrow>
             Inr (valSet\<lparr>proposers := map (\<lambda>i. Some (validators valSet ! i)) shuffled,
                         proposersBlockNum := bn\<rparr>))"

text \<open>
  \<open>Refresh\<close> returns its Go error (\<open>None\<close> is nil) with the council as the call left it.
  The weights and reward addresses that the source stores through the validators' handles
  are stored in the \<open>validators\<close> of the model.
\<close>

definition Refresh ::
  "'r env \<Rightarrow> weightedCouncil \<Rightarrow> hash \<Rightarrow> uint64 \<Rightarrow> panic + (error option \<times> weightedCouncil)" where
  "Refresh env valSet h bn =
     (if proposersBlockNum valSet = bn then Inr (None, valSet)
      else if length (validators valSet) = 0 then Inr (Some ErrNoValidator, valSet)
      else
        (case hashSeed h of
           Inl err \<Rightarrow> Inr (Some err, valSet)
         | Inr seed \<Rightarrow>
             (case GetStakingInfo env (bn + 1) of
                None \<Rightarrow> Inr (Some ErrSkipRefresh, valSet\<lparr>stakingInfo := None\<rparr>)
              | Some newStakingInfo \<Rightarrow>
                  (case getStakingAmountsOfValidators env valSet newStakingInfo of
                     Inl p \<Rightarrow> Inl p
                   | Inr (ws, stakingAmounts) \<Rightarrow>
                       (case calcTotalAmount env ws newStakingInfo stakingAmounts of
                          (totalStaking, amounts, si) \<Rightarrow>
                            (case calcWeight env ws amounts totalStaking of
                               Inl p \<Rightarrow> Inl p
                             | Inr ws' \<Rightarrow>
                                 (case refreshProposers env
                                         (valSet\<lparr>validators := ws', stakingInfo := Some si\<rparr>)
                                         seed bn of
                                    Inl p \<Rightarrow> Inl p
                                  | Inr valSet' \<Rightarrow> Inr (None, valSet'))))))))"

section \<open>The state object (state_object.go)\<close>

text \<open>
  \<open>Storage\<close> is \<open>map[common.Hash]common.Hash\<close>. \<open>big.Int\<close> is \<open>int\<close>.
\<close>

type_synonym Storage = "hash \<rightharpoonup> hash"

text \<open>
  Modelled from the spec: \<open>account.Account\<close> is not under src/. An account has a balance
  and a nonce; a program account has a code hash and a storage root as well
  (\<open>account.GetProgramAccount\<close> is nil for any other). \<open>Empty\<close> is the empty account of
  EIP-158, the (0,0,0) object of the comment in \<open>AddBalance\<close>: no nonce, no balance, no code.
\<close>

record ProgramAccount =
  codeHash :: "byte list"
  storageRoot :: hash

record Account =
  balance :: int
  nonce :: uint64
  program :: "ProgramAccount option"

text \<open>
  Modelled from the spec: the journal of the \<open>StateDB\<close> is not under src/. It is the
  sequence of its entries and a set of dirty addresses; \<open>append\<close> adds an entry at the end
  and \<open>dirty\<close> adds an address to the set.
\<close>

datatype journalEntry =
    touchChange address
  | balanceChange address int
  | nonceChange address uint64
  | storageChange address hash hash
  | codeChange address "byte list" "byte list option"

record journal =
  entries :: "journalEntry list"
  dirties :: "address set"

definition journalAppend :: "journal \<Rightarrow> journalEntry \<Rightarrow> journal" where
  "journalAppend j e = j\<lparr>entries := entries j @ [e]\<rparr>"

definition journalDirty :: "journal \<Rightarrow> address \<Rightarrow> journal" where
  "journalDirty j a = j\<lparr>dirties := insert a (dirties j)\<rparr>"

text \<open>
  What the state object calls and src/ does not hold, taken as parameters: the database
  (\<open>OpenStorageTrie\<close> with the trie it returns, nil or not, and its error; \<open>CopyTrie\<close>), the
  trie's \<open>TryGet\<close>, \<open>rlp.Split\<close> (the content and the error), \<open>Hash.SetBytes\<close>, and the
  constants \<open>emptyCodeHash\<close> and \<open>ripemd\<close>.
\<close>

record 'trie backend =
  OpenStorageTrie :: "hash \<Rightarrow> 'trie option \<times> error option"
  CopyTrie :: "'trie \<Rightarrow> 'trie"
  TryGet :: "'trie \<Rightarrow> byte list \<Rightarrow> error + byte list"
  rlpSplit :: "byte list \<Rightarrow> byte list \<times> error option"
  SetBytes :: "byte list \<Rightarrow> hash"
  emptyCodeHash :: "byte list"
  ripemd :: address

text \<open>
  The state object. Its \<open>db\<close> pointer is not a field: a function that writes the journal
  of the \<open>StateDB\<close> takes the journal and returns it. The source's field \<open>address\<close> is
  \<open>objAddress\<close> here; the \<open>encoded\<close> cell, which no function of the file reads or writes,
  is left out.
\<close>

record 'trie stateObject =
  objAddress :: address
  account :: Account
  dbErr :: "error option"
  storageTrie :: "'trie option"
  code :: "byte list option"
  cachedStorage :: Storage
  dirtyStorage :: Storage
  dirtyCode :: bool
  suicided :: bool
  deleted :: bool

definition zeroHash :: hash where
  "zeroHash = replicate 32 0"

definition accountEmpty :: "'trie backend \<Rightarrow> Account \<Rightarrow> bool" where
  "accountEmpty db acc =
     (nonce acc = 0 \<and> balance acc = 0 \<and>
      (case program acc of None \<Rightarrow> True | Some pa \<Rightarrow> codeHash pa = emptyCodeHash db))"

definition emptyObj :: "'trie backend \<Rightarrow> 'trie stateObject \<Rightarrow> bool" where
  "emptyObj db s = accountEmpty db (account s)"

definition newObject :: "address \<Rightarrow> Account \<Rightarrow> 'trie stateObject" where
  "newObject addr data =
     \<lparr>objAddress = addr, account = data, dbErr = None, storageTrie = None, code = None,
      cachedStorage = Map.empty, dirtyStorage = Map.empty,
      dirtyCode = False, suicided = False, deleted = False\<rparr>"

definition setError :: "'trie stateObject \<Rightarrow> error \<Rightarrow> 'trie stateObject" where
  "setError self err = (if dbErr self = None then self\<lparr>dbErr := Some err\<rparr> else self)"

definition touch :: "'trie backend \<Rightarrow> journal \<Rightarrow> 'trie stateObject \<Rightarrow> journal" where
  "touch db j c =
     (let j' = journalAppend j (touchChange (objAddress c))
      in if objAddress c = ripemd db then journalDirty j' (objAddress c) else j')"

subsection \<open>Balance (lines 299-333, 428-430)\<close>

definition Balance :: "'trie stateObject \<Rightarrow> int" where
  "Balance self = balance (account self)"

definition setBalance :: "'trie stateObject \<Rightarrow> int \<Rightarrow> 'trie stateObject" where
  "setBalance self amount = self\<lparr>account := (account self)\<lparr>balance := amount\<rparr>\<rparr>"

definition SetBalance :: "journal \<Rightarrow> 'trie stateObject \<Rightarrow> int \<Rightarrow> journal \<times> 'trie stateObject" where
  "SetBalance j self amount =
     (journalAppend j (balanceChange (objAddress self) (balance (account self))),
      setBalance self amount)"

definition AddBalance ::
  "'trie backend \<Rightarrow> journal \<Rightarrow> 'trie stateObject \<Rightarrow> int \<Rightarrow> journal \<times> 'trie stateObject" where
  "AddBalance db j c amount =
     (if amount = 0 then (if emptyObj db c then (touch db j c, c) else (j, c))
      else SetBalance j c (Balance c + amount))"

definition SubBalance ::
  "'trie backend \<Rightarrow> journal \<Rightarrow> 'trie stateObject \<Rightarrow> int \<Rightarrow> journal \<times> 'trie stateObject" where
  "SubBalance db j c amount =
     (if amount = 0 then (j, c)
      else SetBalance j c (Balance c - amount))"

subsection \<open>Storage (lines 155-203, 237-240)\<close>

definition getStorageTrie ::
  "'trie backend \<Rightarrow> 'trie stateObject \<Rightarrow> 'trie option \<times> 'trie stateObject" where
  "getStorageTrie db c =
     (case storageTrie c of
        Some tr \<Rightarrow> (Some tr, c)
      | None \<Rightarrow>
          (case program (account c) of
             Some acc \<Rightarrow>
               (case OpenStorageTrie db (storageRoot acc) of
                  (tr, None) \<Rightarrow> (tr, c\<lparr>storageTrie := tr\<rparr>)
                | (tr, Some err) \<Rightarrow>
                    (let tr0 = fst (OpenStorageTrie db zeroHash)
                     in (tr0, setError (c\<lparr>storageTrie := tr0\<rparr>) (ErrCantCreateStorageTrie err))))
           | None \<Rightarrow>
               (let tr0 = fst (OpenStorageTrie db zeroHash)
                in (tr0, c\<lparr>storageTrie := tr0\<rparr>))))"

text \<open>
  The second half of \<open>GetState\<close> (lines 178-192), taken when the key is not in
  \<open>cachedStorage\<close>: the value is read from the storage trie and stored in the cache.
  A call of \<open>TryGet\<close> on a nil trie panics.
\<close>

definition loadState ::
  "'trie backend \<Rightarrow> 'trie stateObject \<Rightarrow> hash \<Rightarrow> panic + (hash \<times> 'trie stateObject)" where
  "loadState db self key =
     (case getStorageTrie db self of
        (None, self1) \<Rightarrow> Inl NilDereference
      | (Some tr, self1) \<Rightarrow>
          (case TryGet db tr key of
             Inl err \<Rightarrow> Inr (zeroHash, setError self1 err)
           | Inr enc \<Rightarrow>
               (let (val, self2) =
                      (if length enc > 0 then
                         (case rlpSplit db enc of
                            (content, None) \<Rightarrow> (SetBytes db content, self1)
                          | (content, Some err) \<Rightarrow> (SetBytes db content, setError self1 err))
                       else (zeroHash, self1))
                in Inr (val, self2\<lparr>cachedStorage := (cachedStorage self2)(key \<mapsto> val)\<rparr>))))"

definition GetState ::
  "'trie backend \<Rightarrow> 'trie stateObject \<Rightarrow> hash \<Rightarrow> panic + (hash \<times> 'trie stateObject)" where
  "GetState db self key =
     (case cachedStorage self key of
        Some val \<Rightarrow> Inr (val, self)
      | None \<Rightarrow> loadState db self key)"

definition setState :: "'trie stateObject \<Rightarrow> hash \<Rightarrow> hash \<Rightarrow> 'trie stateObject" where
  "setState self key val =
     self\<lparr>cachedStorage := (cachedStorage self)(key \<mapsto> val),
          dirtyStorage := (dirtyStorage self)(key \<mapsto> val)\<rparr>"

definition SetState ::
  "'trie backend \<Rightarrow> journal \<Rightarrow> 'trie stateObject \<Rightarrow> hash \<Rightarrow> hash
   \<Rightarrow> panic + (journal \<times> 'trie stateObject)" where
  "SetState db j self key val =
     (case GetState db self key of
        Inl p \<Rightarrow> Inl p
      | Inr (prevalue, self1) \<Rightarrow>
          Inr (journalAppend j (storageChange (objAddress self) key prevalue),
               setState self1 key val))"

subsection \<open>deepCopy (lines 338-350)\<close>

text \<open>
  \<open>Storage.Copy\<close> builds a map with the same entries and \<open>Account.DeepCopy\<close> an account with
  the same fields: as values, the same map and the same account.
\<close>

definition deepCopy :: "'trie backend \<Rightarrow> 'trie stateObject \<Rightarrow> 'trie stateObject" where
  "deepCopy db self =
     (newObject (objAddress self) (account self))
       \<lparr>storageTrie := map_option (CopyTrie db) (storageTrie self),
        code := code self,
        dirtyStorage := dirtyStorage self,
        cachedStorage := dirtyStorage self,
        suicided := suicided self,
        dirtyCode := dirtyCode self,
        deleted := deleted self\<rparr>"

section \<open>Construction and histories of a council (weighted.go, lines 134-213)\<close>

text \<open>
  Modelled from the spec: \<open>istanbul.ProposerPolicy\<close> is not under src/; the source names its
  value \<open>WeightedRandom\<close>, the only policy the weighted council accepts.
\<close>

datatype ProposerPolicy = RoundRobin | Sticky | WeightedRandom

text \<open>
  \<open>NewWeightedCouncil\<close>. A slice argument that may be nil is an option; the chain is only
  tested for nil, so it is the boolean \<open>chainIsNil\<close>. The result \<open>None\<close> is the nil council
  of the two early returns. \<open>logger.Crit\<close> ends the process, which the model counts among
  the panics. The validators are built from the four slices, sorted, and copied in that
  order into \<open>proposers\<close>; the proposer cell gets the first of them.
\<close>

definition NewWeightedCouncil ::
  "address list \<Rightarrow> address list option \<Rightarrow> uint64 list option \<Rightarrow> uint64 list option
   \<Rightarrow> ProposerPolicy \<Rightarrow> uint64 \<Rightarrow> uint64 \<Rightarrow> uint64 \<Rightarrow> bool
   \<Rightarrow> panic + weightedCouncil option" where
  "NewWeightedCouncil addrs rewards votingPowers weights policy committeeSize bn pbn chainIsNil =
     (if policy \<noteq> WeightedRandom then Inr None
      else
        let rewards' = (case rewards of None \<Rightarrow> replicate (length addrs) 0 | Some rs \<Rightarrow> rs);
            weights' = (case weights of None \<Rightarrow> replicate (length addrs) 0 | Some ws \<Rightarrow> ws)
        in if votingPowers = None \<and> chainIsNil then Inl CriticalExit
           else
             let votingPowers' =
                   (case votingPowers of None \<Rightarrow> replicate (length addrs) 1000 | Some vs \<Rightarrow> vs)
             in if length addrs \<noteq> length rewards' \<or> length addrs \<noteq> length votingPowers'
                   \<or> length addrs \<noteq> length weights'
                then Inr None
                else
                  let vals = sortValidators
                        (map (\<lambda>(addr, reward, votingpower, w).
                                newWeightedValidator addr reward votingpower w)
                           (zip addrs (zip rewards' (zip votingPowers' weights'))))
                  in Inr (Some
                       \<lparr>subSize = committeeSize, validators = vals,
                        proposer = (if length vals > 0 then Some (vals ! 0) else None),
                        proposers = map Some vals, proposersBlockNum = pbn,
                        stakingInfo = None, blockNum = bn\<rparr>))"

text \<open>The setters of lines 283-285 and 749-751.\<close>

definition SetSubGroupSize :: "weightedCouncil \<Rightarrow> uint64 \<Rightarrow> weightedCouncil" where
  "SetSubGroupSize valSet n = valSet\<lparr>subSize := n\<rparr>"

definition SetBlockNum :: "weightedCouncil \<Rightarrow> uint64 \<Rightarrow> weightedCouncil" where
  "SetBlockNum valSet bn = valSet\<lparr>blockNum := bn\<rparr>"

text \<open>
  A history of a council: the calls that change it after its construction, in their
  order, \<open>ReplaceValidators\<close> left aside. A panic ends the history.
\<close>

datatype operation =
    AddValidatorOp address
  | RemoveValidatorOp address
  | RefreshOp hash uint64
  | CalcProposerOp address uint64
  | SetSubGroupSizeOp uint64
  | SetBlockNumOp uint64

fun applyOperation :: "'r env \<Rightarrow> weightedCouncil \<Rightarrow> operation \<Rightarrow> panic + weightedCouncil" where
  "applyOperation env valSet (AddValidatorOp addr) = Inr (snd (AddValidator valSet addr))"
| "applyOperation env valSet (RemoveValidatorOp addr) =
     (case RemoveValidator valSet addr of Inl p \<Rightarrow> Inl p | Inr (ok, valSet') \<Rightarrow> Inr valSet')"
| "applyOperation env valSet (RefreshOp h bn) =
     (case Refresh env valSet h bn of Inl p \<Rightarrow> Inl p | Inr (err, valSet') \<Rightarrow> Inr valSet')"
| "applyOperation env valSet (CalcProposerOp lastProposer rnd) =
     CalcProposer env valSet lastProposer rnd"
| "applyOperation env valSet (SetSubGroupSizeOp n) = Inr (SetSubGroupSize valSet n)"
| "applyOperation env valSet (SetBlockNumOp bn) = Inr (SetBlockNum valSet bn)"

fun applyOperations ::
  "'r env \<Rightarrow> weightedCouncil \<Rightarrow> operation list \<Rightarrow> panic + weightedCouncil" where
  "applyOperations env valSet [] = Inr valSet"
| "applyOperations env valSet (x # xs) =
     (case applyOperation env valSet x of
        Inl p \<Rightarrow> Inl p
      | Inr valSet' \<Rightarrow> applyOperations env valSet' xs)"

section \<open>Sample data\<close>

text \<open>
  Concrete validators, councils, hashes and state objects on which the theorems below are
  instantiated. The sample environment has a proposer update interval of 3600 blocks,
  staking information for block 11 only, arithmetic without rounding (no operation on the
  samples' numbers rounds in \<open>float64\<close> either) and a generator that counts up from the
  seed.
\<close>

definition valA :: weightedValidator where
  "valA = newWeightedValidator 1 0 1000 0"

definition valB :: weightedValidator where
  "valB = newWeightedValidator 2 0 1000 0"

definition valC :: weightedValidator where
  "valC = newWeightedValidator 3 0 1000 0"

definition valD :: weightedValidator where
  "valD = newWeightedValidator 4 0 1000 0"

definition sampleStaking :: StakingInfo where
  "sampleStaking =
     \<lparr>BlockNum = 0, CouncilNodeAddrs = [1, 2, 3], CouncilRewardAddrs = [11, 12, 13],
      CouncilStakingAmounts = [70, 30, 0], UseGini = False, Gini = 0\<rparr>"

definition zeroStaking :: StakingInfo where
  "zeroStaking =
     \<lparr>BlockNum = 0, CouncilNodeAddrs = [1, 2, 3, 4], CouncilRewardAddrs = [11, 12, 13, 14],
      CouncilStakingAmounts = [0, 0, 0, 0], UseGini = False, Gini = 0\<rparr>"

definition sampleEnv :: "nat env" where
  "sampleEnv =
     \<lparr>CalcProposerBlockNumber = (\<lambda>n. ((n - 1) div 3600) * 3600),
      GetStakingInfo = (\<lambda>n. if n = 11 then Some sampleStaking
                              else if n = 31 then Some zeroStaking else None),
      CalcGiniCoefficient = (\<lambda>xs. 0),
      mathPow = (\<lambda>x y. x),
      fl = (\<lambda>x. x),
      NewSource = (\<lambda>seed. nat \<bar>seed\<bar>),
      randIntn = (\<lambda>r n. (r mod n, Suc r))\<rparr>"

definition sampleCouncil :: weightedCouncil where
  "sampleCouncil =
     \<lparr>subSize = 3, validators = [valA, valB, valC, valD], proposer = Some valA,
      proposers = [Some valA, Some valB, Some valC, Some valD],
      proposersBlockNum = 0, stakingInfo = None, blockNum = 5\<rparr>"

text \<open>
  The council that \<open>NewWeightedCouncil\<close> builds for the single address 1 with committee
  size 2, after \<open>AddValidator\<close> for the addresses 2 and 3: three validators, and the one
  proposer that the construction copied.
\<close>

definition grownCouncil :: weightedCouncil where
  "grownCouncil =
     \<lparr>subSize = 2, validators = [valA, valB, valC], proposer = Some valA,
      proposers = [Some valA],
      proposersBlockNum = 0, stakingInfo = None, blockNum = 5\<rparr>"

text \<open>Hashes: eight zero bytes, the hash of a number below 256, and a hash with high bytes.\<close>

definition zeros8 :: "byte list" where
  "zeros8 = [0, 0, 0, 0, 0, 0, 0, 0]"

definition smallHash :: "byte \<Rightarrow> hash" where
  "smallHash b = zeros8 @ zeros8 @ zeros8 @ [0, 0, 0, 0, 0, 0, 0, b]"

definition sampleHash :: hash where
  "sampleHash =
     [0x12, 0x34, 0x56, 0x78, 0x9a, 0xbc, 0xde, 0xf0] @ zeros8 @ zeros8 @ zeros8"

definition oneHash :: hash where
  "oneHash = smallHash 1"

definition slot7 :: hash where
  "slot7 = smallHash 7"

definition slot8 :: hash where
  "slot8 = smallHash 8"

definition word42 :: hash where
  "word42 = smallHash 42"

text \<open>
  A backend whose storage trie holds 42 in slot 7, with \<open>rlp.Split\<close> and \<open>SetBytes\<close> as
  they behave on short strings.
\<close>

definition sampleBackend :: "((byte list \<times> byte list) list) backend" where
  "sampleBackend =
     \<lparr>OpenStorageTrie = (\<lambda>root. (Some [(slot7, [42])], None)),
      CopyTrie = (\<lambda>tr. tr),
      TryGet = (\<lambda>tr k. Inr (case map_of tr k of Some v \<Rightarrow> v | None \<Rightarrow> [])),
      rlpSplit = (\<lambda>enc. (if length enc = 1 then enc else tl enc, None)),
      SetBytes = (\<lambda>b. replicate (32 - length b) 0 @ b),
      emptyCodeHash = [],
      ripemd = 3\<rparr>"

text \<open>
  An account that has read slot 7 from the trie and has written slot 8; and an empty
  account.
\<close>

definition sampleObject :: "((byte list \<times> byte list) list) stateObject" where
  "sampleObject =
     (newObject 5 \<lparr>balance = 10, nonce = 1, program = None\<rparr>)
       \<lparr>storageTrie := Some [(slot7, [42])],
        cachedStorage := [slot7 \<mapsto> word42, slot8 \<mapsto> oneHash],
        dirtyStorage := [slot8 \<mapsto> oneHash]\<rparr>"

definition emptyObject :: "((byte list \<times> byte list) list) stateObject" where
  "emptyObject = newObject 6 \<lparr>balance = 0, nonce = 0, program = None\<rparr>"

definition sampleJournal :: journal where
  "sampleJournal = \<lparr>entries = [], dirties = {}\<rparr>"

section \<open>The seed is the first 60 bits of the hash\<close>

lemma hexdigits_all:
  "list_all (\<lambda>n. hexVal (hexdigits ! n) = Some n \<and> hexdigits ! n \<noteq> CHR ''+'' \<and>
      hexdigits ! n \<noteq> CHR ''-'') [0..<16]"
  by code_simp

lemma hexVal_hexdigits: "n < 16 \<Longrightarrow> hexVal (hexdigits ! n) = Some n"
  using hexdigits_all by (simp add: list_all_iff)

lemma hexdigits_no_sign:
  "n < 16 \<Longrightarrow> hexdigits ! n \<noteq> CHR ''+'' \<and> hexdigits ! n \<noteq> CHR ''-''"
  using hexdigits_all by (simp add: list_all_iff)

lemma val16_Nil [simp]: "val16 n [] = n"
  by (simp add: val16_def)

lemma val16_Cons [simp]: "val16 n (d # ds) = val16 (n * 16 + d) ds"
  by (simp add: val16_def)

lemma val16_append: "val16 n (xs @ ys) = val16 (val16 n xs) ys"
  by (simp add: val16_def)

lemma val16_acc: "val16 n ds = n * 16 ^ length ds + val16 0 ds"
proof (induction ds arbitrary: n)
  case Nil
  show ?case by simp
next
  case (Cons d ds)
  have "val16 n (d # ds) = (n * 16 + d) * 16 ^ length ds + val16 0 ds"
    using Cons.IH [of "n * 16 + d"] by simp
  moreover have "val16 0 (d # ds) = d * 16 ^ length ds + val16 0 ds"
    using Cons.IH [of d] by simp
  ultimately show ?case by (simp add: algebra_simps)
qed

lemma val16_ge: "n \<le> val16 n ds"
proof (induction ds arbitrary: n)
  case Nil
  show ?case by simp
next
  case (Cons d ds)
  have "n \<le> n * 16 + d" by simp
  also have "\<dots> \<le> val16 (n * 16 + d) ds" by (rule Cons.IH)
  finally show ?case by simp
qed

lemma val16_bound: "\<forall>d \<in> set ds. d < 16 \<Longrightarrow> val16 0 ds < 16 ^ length ds"
proof (induction ds rule: rev_induct)
  case Nil
  show ?case by simp
next
  case (snoc d ds)
  then have "val16 0 ds < 16 ^ length ds" and "d < 16" by simp_all
  then have "val16 0 ds * 16 + d < 16 ^ length ds * 16" by simp
  then show ?case by (simp add: val16_append)
qed

lemma val16_take:
  assumes "\<forall>d \<in> set ds. d < 16"
  shows "val16 0 (take k ds) = val16 0 ds div 16 ^ (length ds - k)"
proof -
  have "val16 0 ds = val16 0 (take k ds @ drop k ds)" by simp
  also have "\<dots> = val16 0 (take k ds) * 16 ^ length (drop k ds) + val16 0 (drop k ds)"
    by (metis val16_append val16_acc)
  finally have e: "val16 0 ds = val16 0 (take k ds) * 16 ^ (length ds - k) + val16 0 (drop k ds)"
    by simp
  have "\<forall>d \<in> set (drop k ds). d < 16"
    using assms by (meson in_set_dropD)
  then have "val16 0 (drop k ds) < 16 ^ (length ds - k)"
    using val16_bound [of "drop k ds"] by simp
  then show ?thesis
    using e by simp
qed

lemma parseDigits_hexdigits:
  "\<forall>d \<in> set ds. d < 16 \<Longrightarrow> val16 n ds < 2 ^ 64 \<Longrightarrow>
   parseDigits n (map (\<lambda>d. hexdigits ! d) ds) = Inr (val16 n ds)"
proof (induction ds arbitrary: n)
  case Nil
  show ?case by simp
next
  case (Cons d ds)
  have "n * 16 + d \<le> val16 (n * 16 + d) ds"
    by (rule val16_ge)
  then have "n * 16 + d < 2 ^ 64"
    using Cons.prems(2) by simp
  then have "\<not> 2 ^ 64 \<le> n * 16 + d"
    by simp
  moreover have "hexVal (hexdigits ! d) = Some d"
    using Cons.prems(1) by (simp add: hexVal_hexdigits)
  moreover have "parseDigits (n * 16 + d) (map (\<lambda>d. hexdigits ! d) ds) = Inr (val16 (n * 16 + d) ds)"
    using Cons.IH [of "n * 16 + d"] Cons.prems by simp
  ultimately show ?case
    by simp
qed

lemma Hex_nibbles: "concat (map hexByte h) = map (\<lambda>d. hexdigits ! d) (nibbles h)"
  by (induction h) (simp_all add: nibbles_def hexByte_def)

lemma nibbles_lt: "\<forall>d \<in> set (nibbles h). d < 16"
proof -
  have "unat b div 16 < 16" for b :: byte
    using unsigned_less [of b, where 'a = nat] by (simp add: less_mult_imp_div_less)
  then show ?thesis by (auto simp: nibbles_def)
qed

lemma length_nibbles [simp]: "length (nibbles h) = 2 * length h"
  by (induction h) (simp_all add: nibbles_def)

lemma val16_nibbles: "val16 n (nibbles h) = foldl (\<lambda>a b. a * 256 + unat b) n h"
proof (induction h arbitrary: n)
  case Nil
  show ?case by (simp add: nibbles_def)
next
  case (Cons b h)
  have e: "(n * 16 + unat b div 16) * 16 + unat b mod 16 = n * 256 + unat b"
    by (simp add: algebra_simps)
  have "val16 n (nibbles (b # h)) = val16 ((n * 16 + unat b div 16) * 16 + unat b mod 16) (nibbles h)"
    by (simp add: nibbles_def)
  also have "\<dots> = val16 (n * 256 + unat b) (nibbles h)"
    by (simp only: e)
  finally show ?case
    using Cons.IH [of "n * 256 + unat b"] by simp
qed

lemma hashSeed_32:
  assumes "length h = 32"
  shows "hashSeed h = Inr (int (hashBig h div 2 ^ 196))"
proof -
  let ?ds = "take 15 (nibbles h)"
  have lt: "\<forall>d \<in> set ?ds. d < 16"
    using nibbles_lt [of h] by (meson in_set_takeD)
  have len: "length ?ds = 15" using assms by simp
  have v: "val16 0 ?ds = hashBig h div 16 ^ 49"
    using val16_take [OF nibbles_lt, where k = 15 and h1 = h] assms
    by (simp add: val16_nibbles hashBig_def)
  have b: "val16 0 ?ds < 16 ^ 15"
    using val16_bound [OF lt] len by simp
  have p: "parseDigits 0 (map (\<lambda>d. hexdigits ! d) ?ds) = Inr (val16 0 ?ds)"
    using parseDigits_hexdigits [OF lt, of 0] b by simp
  obtain d ds where c: "?ds = d # ds"
    using len by (cases ?ds) simp_all
  then have "d < 16" using lt by simp
  note ns = hexdigits_no_sign [OF this]
  have s: "TrimPrefix (Hex h) ''0x'' = map (\<lambda>d. hexdigits ! d) (nibbles h)"
    by (simp add: TrimPrefix_def Hex_def Hex_nibbles)
  have "hashSeed h = ParseInt16 (map (\<lambda>d. hexdigits ! d) ?ds)"
    using assms by (simp add: hashSeed_def s take_map)
  also have "\<dots> = Inr (int (val16 0 ?ds))"
    using p b ns unfolding c by (simp add: ParseInt16_def)
  finally show ?thesis
    using v by simp
qed

lemmas hashSeed_eval =
  hashSeed_def Hex_def hexByte_def hexdigits_def TrimPrefix_def ParseInt16_def hexVal_def

text \<open>
  Claim C1, as amended: for every 32-byte hash, the seed that \<open>SubListWithProposer\<close> and
  \<open>Refresh\<close> parse is the number formed by the first 15 hex digits of the hash, which are
  its 60 most significant bits: the hash as a 256-bit number, divided by \<open>2 ^ 196\<close>. The
  parse never fails.
\<close>

theorem seed_is_high_60_bits:
  "length h = 32 \<Longrightarrow> hashSeed h = Inr (int (hashBig h div 2 ^ 196))"
  by (rule hashSeed_32)

text \<open>The instance of C1 at a hash that starts with the bytes 12 34 56 78 9a bc de f0.\<close>

theorem seed_is_high_60_bits_witness:
  "length sampleHash = 32 \<and> hashSeed sampleHash = Inr 0x123456789abcdef \<and>
   int (hashBig sampleHash div 2 ^ 196) = 0x123456789abcdef"
proof -
  have l: "length sampleHash = 32" by (simp add: sampleHash_def zeros8_def)
  have e: "hashSeed sampleHash = Inr 0x123456789abcdef"
    by (simp add: sampleHash_def zeros8_def hashSeed_eval)
  show ?thesis
    using seed_is_high_60_bits [OF l] l e by simp
qed

text \<open>
  Claim C1 as stated fails: the hash \<open>0x00..01\<close> has the low 60 bits 1, and its seed is 0.
\<close>

theorem seed_is_not_low_60_bits:
  "hashSeed oneHash = Inr 0 \<and> int (hashBig oneHash mod 2 ^ 60) = 1 \<and>
   hashSeed oneHash \<noteq> Inr (int (hashBig oneHash mod 2 ^ 60))"
  by (simp add: oneHash_def smallHash_def zeros8_def hashSeed_eval hashBig_def)

section \<open>Lookups and the selector\<close>

lemma getByAddressFrom_found:
  "a \<in> set (map address vals) \<Longrightarrow>
   \<exists>k v. getByAddressFrom n vals a = (n + int k, Some v) \<and> k < length vals \<and>
     vals ! k = v \<and> address v = a"
proof (induction vals arbitrary: n)
  case Nil
  then show ?case by simp
next
  case (Cons x xs)
  show ?case
  proof (cases "a = address x")
    case True
    then have "getByAddressFrom n (x # xs) a = (n + int 0, Some x)" by simp
    then show ?thesis using True by fastforce
  next
    case False
    then have "a \<in> set (map address xs)" using Cons.prems by auto
    then obtain k v where "getByAddressFrom (n + 1) xs a = (n + 1 + int k, Some v)"
      and "k < length xs" and "xs ! k = v" and "address v = a"
      using Cons.IH by blast
    then have "getByAddressFrom n (x # xs) a = (n + int (Suc k), Some v) \<and>
        Suc k < length (x # xs) \<and> (x # xs) ! Suc k = v \<and> address v = a"
      using False by simp
    then show ?thesis by blast
  qed
qed

lemma weightedRandomProposer_in_proposers:
  "proposers valSet \<noteq> [] \<Longrightarrow>
   weightedRandomProposer env valSet l rnd \<in> set (proposers valSet)"
  by (simp add: weightedRandomProposer_def Let_def)

section \<open>Facts about the sample data\<close>

lemma hashSeed_sampleHash: "hashSeed sampleHash = Inr 0x123456789abcdef"
  by (simp add: sampleHash_def zeros8_def hashSeed_eval)

lemmas sample_validators = valA_def valB_def valC_def valD_def newWeightedValidator_def

lemma sampleEnv_contract: "0 < n \<Longrightarrow> fst (randIntn sampleEnv r n) < n"
  by (simp add: sampleEnv_def)

text \<open>
  The council \<open>grownCouncil\<close> is what two calls of \<open>AddValidator\<close> make of the council with
  the one validator at address 1: the validators grow, the proposers do not.
\<close>

lemma grownCouncil_by_AddValidator:
  "AddValidator (snd (AddValidator (grownCouncil\<lparr>validators := [valA]\<rparr>) 2)) 3 =
     (True, grownCouncil)"
  by (simp add: AddValidator_def sortValidators_def grownCouncil_def sample_validators)

lemma grownCouncil_constructed:
  "NewWeightedCouncil [1] None None None WeightedRandom 2 5 0 False =
     Inr (Some (grownCouncil\<lparr>validators := [valA]\<rparr>))"
  by (simp add: NewWeightedCouncil_def sortValidators_def grownCouncil_def sample_validators)

section \<open>The shuffle loop permutes\<close>

lemma shuffleLoop_permutes:
  assumes "\<And>r n. 0 < n \<Longrightarrow> fst (randIntn env r n) < n" and "n = length xs"
  shows "\<exists>ys. shuffleLoop env i n xs r = Inr ys \<and> length ys = length xs \<and>
           set ys = set xs \<and> distinct ys = distinct xs"
  using assms
proof (induction env i n xs r rule: shuffleLoop.induct)
  case (1 env i n xs r)
  note contract = "1.prems"(1) and len = "1.prems"(2)
  show ?case
  proof (cases "i < n")
    case False
    then show ?thesis
      by (subst shuffleLoop.simps) simp
  next
    case True
    obtain j r' where j: "randIntn env r n = (j, r')"
      by (cases "randIntn env r n")
    have n: "n \<noteq> 0" using True by simp
    have "0 < n" using True by simp
    then have "fst (randIntn env r n) < n" by (rule contract)
    then have jn: "j < length xs"
      using j len by simp
    have i: "i < length xs"
      using True len by simp
    let ?xs = "xs[i := xs ! j, j := xs ! i]"
    have I: "Intn env r n = Inr (j, r')"
      using n j by (simp add: Intn_def)
    have "\<exists>ys. shuffleLoop env (Suc i) n ?xs r' = Inr ys \<and> length ys = length ?xs \<and>
        set ys = set ?xs \<and> distinct ys = distinct ?xs"
    proof (rule "1.IH" [OF True I refl])
      show "i < length xs \<and> j < length xs" using i jn by simp
      show "\<And>r n. 0 < n \<Longrightarrow> fst (randIntn env r n) < n" by (rule contract)
      show "n = length ?xs" using len by simp
    qed
    then obtain ys where ys: "shuffleLoop env (Suc i) n ?xs r' = Inr ys"
      and p: "length ys = length ?xs" "set ys = set ?xs" "distinct ys = distinct ?xs"
      by blast
    have "shuffleLoop env i n xs r = Inr ys"
      using True I i jn ys by (subst shuffleLoop.simps) simp
    moreover have "set ?xs = set xs" "distinct ?xs = distinct xs"
      using i jn by (simp_all add: set_swap distinct_swap)
    ultimately show ?thesis
      using p by simp
  qed
qed

lemma shuffleLoop_keeps_set:
  "shuffleLoop env i n xs r = Inr ys \<Longrightarrow> length ys = length xs \<and> set ys = set xs"
proof (induction env i n xs r rule: shuffleLoop.induct)
  case (1 env i n xs r)
  show ?case
  proof (cases "i < n")
    case False
    then show ?thesis
      using "1.prems" by (subst (asm) shuffleLoop.simps) simp
  next
    case True
    show ?thesis
    proof (cases "Intn env r n")
      case (Inl e)
      then show ?thesis
        using "1.prems" True by (subst (asm) shuffleLoop.simps) simp
    next
      case (Inr jr)
      obtain j r' where jr: "jr = (j, r')" by (cases jr)
      show ?thesis
      proof (cases "i < length xs \<and> j < length xs")
        case False
        then show ?thesis
          using "1.prems" True Inr jr by (subst (asm) shuffleLoop.simps) auto
      next
        case b: True
        let ?xs = "xs[i := xs ! j, j := xs ! i]"
        have "shuffleLoop env (Suc i) n ?xs r' = Inr ys"
          using "1.prems" True Inr jr b by (subst (asm) shuffleLoop.simps) simp
        then have "length ys = length ?xs \<and> set ys = set ?xs"
          using "1.IH" [OF True] Inr jr b by simp
        then show ?thesis
          using b by (simp add: set_swap)
      qed
    qed
  qed
qed

section \<open>CalcProposer\<close>

lemma weightedRandomProposer_proposer [simp]:
  "weightedRandomProposer env (valSet\<lparr>proposer := x\<rparr>) l rnd =
   weightedRandomProposer env valSet l rnd"
  by (simp add: weightedRandomProposer_def)

lemma chooseProposerByRoundRobin_proposer [simp]:
  "chooseProposerByRoundRobin (valSet\<lparr>proposer := x\<rparr>) l rnd =
   chooseProposerByRoundRobin valSet l rnd"
  by (simp add: chooseProposerByRoundRobin_def getByAddress_def)

lemma chooseProposerByRoundRobin_total:
  "validators valSet \<noteq> [] \<Longrightarrow> \<exists>v. chooseProposerByRoundRobin valSet l rnd = Inr v"
  by (simp add: chooseProposerByRoundRobin_def Let_def)

text \<open>
  Claim C7: for every council, last proposer and round, \<open>CalcProposer\<close> returns, and a
  second call with the same arguments changes nothing: the council, and with it the
  validator that \<open>GetProposer\<close> returns, is the one the first call left.
\<close>

theorem CalcProposer_idempotent:
  "\<exists>valSet1 valSet2 v.
     CalcProposer env valSet lastProposer rnd = Inr valSet1 \<and>
     CalcProposer env valSet1 lastProposer rnd = Inr valSet2 \<and>
     valSet2 = valSet1 \<and> GetProposer valSet1 = Inr v \<and> GetProposer valSet2 = Inr v"
proof (cases "weightedRandomProposer env valSet lastProposer rnd")
  case (Some newProposer)
  then show ?thesis
    by (simp add: CalcProposer_def GetProposer_def)
next
  case None
  show ?thesis
  proof (cases "validators valSet = []")
    case True
    with None show ?thesis
      by (simp add: CalcProposer_def GetProposer_def)
  next
    case False
    then obtain v where "chooseProposerByRoundRobin valSet lastProposer rnd = Inr v"
      using chooseProposerByRoundRobin_total by blast
    with None False show ?thesis
      by (simp add: CalcProposer_def GetProposer_def)
  qed
qed

text \<open>
  The instance of C7 at the sample council and round 2: block 5 and round 2 pick the
  proposer at index 3 of 4, twice.
\<close>

theorem CalcProposer_idempotent_witness:
  "CalcProposer sampleEnv sampleCouncil 1 2 = Inr (sampleCouncil\<lparr>proposer := Some valD\<rparr>) \<and>
   CalcProposer sampleEnv (sampleCouncil\<lparr>proposer := Some valD\<rparr>) 1 2 =
     Inr (sampleCouncil\<lparr>proposer := Some valD\<rparr>) \<and>
   GetProposer (sampleCouncil\<lparr>proposer := Some valD\<rparr>) = Inr valD"
  using CalcProposer_idempotent [of sampleEnv sampleCouncil 1 2]
  by (simp add: CalcProposer_def weightedRandomProposer_def sampleCouncil_def sampleEnv_def
      GetProposer_def)

section \<open>The state object\<close>

text \<open>
  Claim C9, as amended: \<open>AddBalance\<close> and \<open>SubBalance\<close> of the amount 0 leave the state
  object, and so its balance, as it is and append no balance change. \<open>AddBalance\<close> of 0
  touches the account, which appends one touch entry, only when the account is empty;
  \<open>SubBalance\<close> of 0 leaves the journal as it is.
\<close>

theorem zero_amount_balance:
  "AddBalance db j c 0 = ((if emptyObj db c then touch db j c else j), c) \<and>
   entries (touch db j c) = entries j @ [touchChange (objAddress c)] \<and>
   SubBalance db j c 0 = (j, c)"
  by (simp add: AddBalance_def SubBalance_def touch_def journalAppend_def journalDirty_def
      Let_def)

text \<open>The instance of C9 at an empty account and at an account with balance 10.\<close>

theorem zero_amount_balance_witness:
  "emptyObj sampleBackend emptyObject \<and>
   AddBalance sampleBackend sampleJournal emptyObject 0 =
     (\<lparr>entries = [touchChange 6], dirties = {}\<rparr>, emptyObject) \<and>
   AddBalance sampleBackend sampleJournal sampleObject 0 = (sampleJournal, sampleObject) \<and>
   SubBalance sampleBackend sampleJournal emptyObject 0 = (sampleJournal, emptyObject)"
  using zero_amount_balance [of sampleBackend sampleJournal emptyObject]
    zero_amount_balance [of sampleBackend sampleJournal sampleObject]
  by (simp add: emptyObj_def accountEmpty_def sampleObject_def emptyObject_def newObject_def
      sampleJournal_def touch_def journalAppend_def sampleBackend_def)

text \<open>
  Claim C9 as stated fails: \<open>SubBalance\<close> of 0 appends no touch entry, on an empty account
  or on any other, and \<open>AddBalance\<close> of 0 appends none on an account that is not empty.
\<close>

theorem zero_amount_no_touch:
  "touchChange (objAddress emptyObject) \<notin>
     set (entries (fst (SubBalance sampleBackend sampleJournal emptyObject 0))) \<and>
   touchChange (objAddress sampleObject) \<notin>
     set (entries (fst (AddBalance sampleBackend sampleJournal sampleObject 0)))"
  by (simp add: SubBalance_def AddBalance_def sampleJournal_def emptyObj_def accountEmpty_def
      sampleObject_def newObject_def)

text \<open>
  Claim C10: the copy that \<open>deepCopy\<close> makes has the dirty storage of its source, and its
  cached storage is the source's dirty storage too. So a slot that the source holds in
  its cache only (read, never written) is not in the copy's cache, and \<open>GetState\<close> on the
  copy takes the path that reads the storage trie.
\<close>

theorem deepCopy_storage:
  "dirtyStorage (deepCopy db self) = dirtyStorage self \<and>
   cachedStorage (deepCopy db self) = dirtyStorage self \<and>
   (dirtyStorage self key = None \<longrightarrow>
      cachedStorage (deepCopy db self) key = None \<and>
      GetState db (deepCopy db self) key = loadState db (deepCopy db self) key)"
  by (simp add: deepCopy_def newObject_def GetState_def)

text \<open>
  The instance of C10 at the sample account: slot 7 is in the source's cache and not in
  the copy's, and the copy reads its value, 42, from the trie.
\<close>

theorem deepCopy_storage_witness:
  "cachedStorage sampleObject slot7 = Some word42 \<and> dirtyStorage sampleObject slot7 = None \<and>
   GetState sampleBackend sampleObject slot7 = Inr (word42, sampleObject) \<and>
   cachedStorage (deepCopy sampleBackend sampleObject) slot7 = None \<and>
   GetState sampleBackend (deepCopy sampleBackend sampleObject) slot7 =
     loadState sampleBackend (deepCopy sampleBackend sampleObject) slot7 \<and>
   map_sum id fst (loadState sampleBackend (deepCopy sampleBackend sampleObject) slot7) =
     Inr word42"
proof -
  have d: "dirtyStorage sampleObject slot7 = None"
    by (simp add: sampleObject_def slot7_def slot8_def smallHash_def)
  have c: "cachedStorage sampleObject slot7 = Some word42"
    by (simp add: sampleObject_def slot7_def slot8_def smallHash_def)
  have g: "GetState sampleBackend sampleObject slot7 = Inr (word42, sampleObject)"
    by (simp add: GetState_def c)
  have t: "storageTrie (deepCopy sampleBackend sampleObject) = Some [(slot7, [42])]"
    by (simp add: deepCopy_def sampleObject_def sampleBackend_def)
  have p: "replicate 31 (0 :: byte) @ [42] = word42"
    unfolding word42_def smallHash_def zeros8_def by (simp add: numeral_eq_Suc)
  have l: "map_sum id fst (loadState sampleBackend (deepCopy sampleBackend sampleObject) slot7) =
      Inr word42"
    by (simp add: loadState_def getStorageTrie_def t) (simp add: sampleBackend_def p)
  show ?thesis
    using deepCopy_storage [where self = sampleObject and key = slot7 and db = sampleBackend] d c g l
    by simp
qed

section \<open>RecoverWeightedCouncilProposer\<close>

lemma getByAddressFrom_unknown:
  "addr \<notin> set (map address vals) \<Longrightarrow> snd (getByAddressFrom i vals addr) = None"
  by (induction vals arbitrary: i) auto

lemma recoverLoop_unknown:
  "addr \<in> set addrs \<Longrightarrow> snd (GetByAddress valSet addr) = None \<Longrightarrow>
   recoverLoop valSet addrs ps = Inl NilDereference"
  by (induction addrs arbitrary: ps) (auto simp: Let_def split: option.splits)

text \<open>
  Claim C8 fails on the code: when one of the addresses is not the address of a validator
  of the council, \<open>RecoverWeightedCouncilProposer\<close> does not complete. It appends the nil
  handle and then panics on \<open>val.Address()\<close>, the argument of its trace log.
\<close>

theorem Recover_unknown_address_panics:
  "addr \<in> set proposerAddrs \<Longrightarrow> addr \<notin> set (map address (validators valSet)) \<Longrightarrow>
   RecoverWeightedCouncilProposer valSet proposerAddrs = Inl NilDereference"
proof -
  assume a: "addr \<in> set proposerAddrs" and n: "addr \<notin> set (map address (validators valSet))"
  have "snd (GetByAddress valSet addr) = None"
    using n by (simp add: GetByAddress_def getByAddress_def getByAddressFrom_unknown)
  then show ?thesis
    using a by (simp add: RecoverWeightedCouncilProposer_def recoverLoop_unknown)
qed

text \<open>The instance at the sample council and the addresses 1 and 9; no validator has address 9.\<close>

theorem Recover_unknown_address_panics_witness:
  "9 \<in> set [1, 9 :: address] \<and> 9 \<notin> set (map address (validators sampleCouncil)) \<and>
   RecoverWeightedCouncilProposer sampleCouncil [1, 9] = Inl NilDereference"
  using Recover_unknown_address_panics [of 9 "[1, 9]" sampleCouncil]
  by (simp add: sampleCouncil_def valA_def valB_def valC_def valD_def newWeightedValidator_def)

section \<open>Weights\<close>

lemma float64ToUint64_Round:
  assumes "0 \<le> q" and "q < 2 ^ 63"
  shows "unat (float64ToUint64 (Round q)) = nat (round q)"
proof -
  have r: "Round q = of_int (round q)"
    using assms by (simp add: Round_def round_def)
  have ge: "0 \<le> round q"
    using assms by (simp add: round_def)
  have "round q \<le> 2 ^ 63"
  proof -
    have "q + 1 / 2 < 2 ^ 63 + 1" using assms by simp
    then have "\<lfloor>q + 1 / 2\<rfloor> < 2 ^ 63 + 1"
      by (simp add: floor_less_iff)
    then show ?thesis by (simp add: round_def)
  qed
  then have lt: "round q < 2 ^ 64" by simp
  have "float64ToUint64 (Round q) = word_of_int (round q)"
    using ge by (simp add: float64ToUint64_def r)
  moreover have "unat (word_of_int (round q) :: uint64) = nat (round q)"
    using ge lt by (simp add: unat_eq_nat_uint uint_word_of_int take_bit_int_eq_self)
  ultimately show ?thesis by simp
qed

lemma weightOf_max:
  assumes "0 \<le> stakeShare env a t" and "stakeShare env a t < 2 ^ 63"
  shows "unat (weightOf env a t) = max 1 (nat (round (stakeShare env a t)))"
proof -
  let ?w = "float64ToUint64 (Round (stakeShare env a t))"
  have u: "unat ?w = nat (round (stakeShare env a t))"
    using assms by (rule float64ToUint64_Round)
  show ?thesis
  proof (cases "?w = 0")
    case True
    then have "nat (round (stakeShare env a t)) = 0" using u by simp
    with True show ?thesis by (simp add: weightOf_def)
  next
    case False
    then have "unat ?w \<noteq> 0" by (simp add: unat_eq_zero)
    with False show ?thesis using u by (simp add: weightOf_def Let_def)
  qed
qed

text \<open>
  Claim C4, as amended: with a total staking above 0, \<open>calcWeight\<close> gives every validator
  the weight \<open>round (stake * 100 / total)\<close>, the quotient being the \<open>float64\<close> one, and the
  weight 1 when that is 0, whether the stake is small or zero. (The quotient is assumed
  to be in the range where the conversion to \<open>uint64\<close> is defined; it is at most 100 when
  the total is the sum of the stakes.)
\<close>

theorem calcWeight_weights:
  assumes "0 < totalStaking" and "length ws \<le> length stakingAmounts" and "i < length ws"
    and "0 \<le> stakeShare env (stakingAmounts ! i) totalStaking"
    and "stakeShare env (stakingAmounts ! i) totalStaking < 2 ^ 63"
  shows "\<exists>ws'. calcWeight env ws stakingAmounts totalStaking = Inr ws' \<and>
           length ws' = length ws \<and>
           address (ws' ! i) = address (ws ! i) \<and>
           unat (weight (ws' ! i)) =
             max 1 (nat (round (stakeShare env (stakingAmounts ! i) totalStaking)))"
  using assms by (simp add: calcWeight_def weightOf_max)

text \<open>
  The instance of C4 at three validators with the stakes 70, 30 and 0 of a total of 100:
  the third validator, whose stake is 0, has weight 1.
\<close>

theorem calcWeight_weights_witness:
  "calcWeight sampleEnv [valA, valB, valC] [70, 30, 0] 100 =
     Inr [valA\<lparr>weight := 70\<rparr>, valB\<lparr>weight := 30\<rparr>, valC\<lparr>weight := 1\<rparr>] \<and>
   stakeShare sampleEnv ([70, 30, 0] ! 2) 100 = 0 \<and>
   (\<exists>ws'. calcWeight sampleEnv [valA, valB, valC] [70, 30, 0] 100 = Inr ws' \<and>
      unat (weight (ws' ! 2)) = 1)"
proof -
  have s: "stakeShare sampleEnv ([70, 30, 0] ! 2) 100 = 0"
    by (simp add: stakeShare_def sampleEnv_def)
  have c: "calcWeight sampleEnv [valA, valB, valC] [70, 30, 0] 100 =
     Inr [valA\<lparr>weight := 70\<rparr>, valB\<lparr>weight := 30\<rparr>, valC\<lparr>weight := 1\<rparr>]"
    by (simp add: calcWeight_def weightOf_def stakeShare_def sampleEnv_def Round_def
        float64ToUint64_def)
  show ?thesis
    using calcWeight_weights [of 100 "[valA, valB, valC]" "[70, 30, 0]" 2 sampleEnv] s c
    by simp
qed

text \<open>
  Claim C4 as stated fails: of the stakes 70, 30 and 0, the validator with stake 0 gets
  the weight 1, not 0.
\<close>

theorem calcWeight_zero_stake_weight_one:
  "map_sum id (map weight) (calcWeight sampleEnv [valA, valB, valC] [70, 30, 0] 100) =
     Inr [70, 30, 1]"
  by (simp add: calcWeight_def weightOf_def stakeShare_def sampleEnv_def Round_def
      float64ToUint64_def)

section \<open>Refresh without staking information\<close>

text \<open>
  Claim C6: when \<open>GetStakingInfo (blockNum + 1)\<close> is nil, \<open>Refresh\<close> returns with the
  proposers and \<open>proposersBlockNum\<close> it was called with; and when the call gets as far as
  the lookup (the proposers are not of this block already, there is a validator, the hash
  has its 32 bytes), its error is the one that skips the refresh.
\<close>

theorem Refresh_no_staking_info:
  assumes "GetStakingInfo env (bn + 1) = None"
  shows "\<exists>err valSet'. Refresh env valSet h bn = Inr (err, valSet') \<and>
           proposers valSet' = proposers valSet \<and>
           proposersBlockNum valSet' = proposersBlockNum valSet \<and>
           (proposersBlockNum valSet \<noteq> bn \<and> validators valSet \<noteq> [] \<and> length h = 32
              \<longrightarrow> err = Some ErrSkipRefresh)"
proof (cases "length h = 32")
  case True
  then show ?thesis
    using assms by (simp add: Refresh_def hashSeed_32)
next
  case False
  then show ?thesis
    using assms by (cases "hashSeed h") (simp_all add: Refresh_def)
qed

text \<open>The instance of C6 at the sample council and block 20, which has no staking information.\<close>

theorem Refresh_no_staking_info_witness:
  "GetStakingInfo sampleEnv (20 + 1) = None \<and>
   proposersBlockNum sampleCouncil \<noteq> 20 \<and> validators sampleCouncil \<noteq> [] \<and>
   length sampleHash = 32 \<and>
   Refresh sampleEnv sampleCouncil sampleHash 20 =
     Inr (Some ErrSkipRefresh, sampleCouncil\<lparr>stakingInfo := None\<rparr>)"
proof -
  have g: "GetStakingInfo sampleEnv (20 + 1) = None"
    by (simp add: sampleEnv_def)
  have p: "proposersBlockNum sampleCouncil \<noteq> 20 \<and> validators sampleCouncil \<noteq> [] \<and>
      length sampleHash = 32"
    by (simp add: sampleCouncil_def sampleHash_def zeros8_def)
  have s: "hashSeed sampleHash = Inr 0x123456789abcdef"
    by (simp add: sampleHash_def zeros8_def hashSeed_eval)
  have "Refresh sampleEnv sampleCouncil sampleHash 20 =
      Inr (Some ErrSkipRefresh, sampleCouncil\<lparr>stakingInfo := None\<rparr>)"
    using g p by (simp add: Refresh_def s)
  then show ?thesis
    using Refresh_no_staking_info [OF g, of sampleCouncil sampleHash] g p by simp
qed

section \<open>SubListWithProposer without a second proposer\<close>

lemma nextProposerLoop_returns_distinct:
  assumes "nextProposerLoop env valSet p c0 rnd idx = Some y"
  shows "proposers valSet = [] \<or>
     \<not> (\<forall>x \<in> set (proposers valSet). \<exists>v. x = Some v \<and> address v = address c0)"
proof (rule nextProposerLoop.raw_induct
    [where P = "\<lambda>env valSet p c0 rnd idx y. proposers valSet = [] \<or>
       \<not> (\<forall>x \<in> set (proposers valSet). \<exists>v. x = Some v \<and> address v = address c0)",
     OF _ assms], goal_cases)
  case (1 loop env valSet p c0 rnd idx y)
  note IH = "1"(1) and step = "1"(2)
  show ?case
  proof (rule ccontr)
    assume "\<not> ?thesis"
    then have ne: "proposers valSet \<noteq> []"
      and same: "\<forall>x \<in> set (proposers valSet). \<exists>v. x = Some v \<and> address v = address c0"
      by blast+
    have "weightedRandomProposer env valSet p (rnd + idx) \<in> set (proposers valSet)"
      using ne by (rule weightedRandomProposer_in_proposers)
    then have "\<exists>v. weightedRandomProposer env valSet p (rnd + idx) = Some v \<and>
        address v = address c0"
      using same by blast
    then obtain v where v: "weightedRandomProposer env valSet p (rnd + idx) = Some v"
      and a: "address v = address c0"
      by blast
    have "loop env valSet p c0 rnd (idx + 1) = Some y"
      using step by (simp add: v a)
    then have "proposers valSet = [] \<or>
        \<not> (\<forall>x \<in> set (proposers valSet). \<exists>v. x = Some v \<and> address v = address c0)"
      by (rule IH)
    then show False
      using ne same by blast
  qed
qed

lemma nextProposerLoop_stuck:
  assumes "proposers valSet \<noteq> []"
    and "\<forall>x \<in> set (proposers valSet). \<exists>v. x = Some v \<and> address v = address c0"
  shows "nextProposerLoop env valSet p c0 rnd idx = None"
proof (cases "nextProposerLoop env valSet p c0 rnd idx")
  case None
  then show ?thesis .
next
  case (Some y)
  then show ?thesis
    using nextProposerLoop_returns_distinct [OF Some] assms by blast
qed

text \<open>
  Claim C5 fails on the code: when the committee is smaller than the council and has at
  least two seats, and every entry of \<open>proposers\<close> has the address of the given proposer,
  the loop that looks for the next proposer never ends, and \<open>SubListWithProposer\<close> never
  returns: there is no committee, with or without a duplicate in slot 1.
\<close>

theorem SubListWithProposer_never_returns:
  assumes "unat (subSize valSet) < length (validators valSet)"
    and "2 \<le> unat (subSize valSet)"
    and "length prevHash = 32"
    and "p \<in> set (map address (validators valSet))"
    and "proposers valSet \<noteq> []"
    and "\<forall>x \<in> set (proposers valSet). \<exists>v. x = Some v \<and> address v = p"
  shows "SubListWithProposer env valSet prevHash p rnd = None"
proof -
  obtain k v where g: "getByAddressFrom 0 (validators valSet) p = (0 + int k, Some v)"
    and av: "address v = p"
    using getByAddressFrom_found [OF assms(4), of 0] by blast
  have s: "subSize valSet \<noteq> 0" "subSize valSet \<noteq> 1"
    using assms(2) by auto
  have "nextProposerLoop env valSet p v rnd 1 = None"
    using assms(5,6) av by (intro nextProposerLoop_stuck) simp_all
  then show ?thesis
    using assms(1,3) g s by (simp add: SubListWithProposer_def hashSeed_32 getByAddress_def)
qed

text \<open>
  The instance of C5 at the council that grew from one validator to three by
  \<open>AddValidator\<close>, with committee size 2 and the one proposer of its construction.
\<close>

theorem SubListWithProposer_never_returns_witness:
  "unat (subSize grownCouncil) < length (validators grownCouncil) \<and>
   2 \<le> unat (subSize grownCouncil) \<and> length sampleHash = 32 \<and>
   1 \<in> set (map address (validators grownCouncil)) \<and>
   proposers grownCouncil = [Some valA] \<and> address valA = 1 \<and>
   SubListWithProposer sampleEnv grownCouncil sampleHash 1 0 = None"
proof -
  have a: "unat (subSize grownCouncil) < length (validators grownCouncil)"
    "2 \<le> unat (subSize grownCouncil)" "length sampleHash = 32"
    "1 \<in> set (map address (validators grownCouncil))"
    "proposers grownCouncil = [Some valA]" "address valA = 1"
    by (simp_all add: grownCouncil_def sampleHash_def zeros8_def valA_def valB_def valC_def
        newWeightedValidator_def)
  have "SubListWithProposer sampleEnv grownCouncil sampleHash 1 0 = None"
    using a by (intro SubListWithProposer_never_returns) simp_all
  then show ?thesis using a by simp
qed

section \<open>The committee of SubListWithProposer\<close>

lemma word_pred_measure:
  fixes k idx :: uint64
  assumes "k \<noteq> idx"
  shows "unat (k - (idx + 1)) < unat (k - idx)"
proof -
  have z: "k - idx \<noteq> 0" using assms by simp
  have e: "k - (idx + 1) = k - idx - 1" by simp
  have "unat (k - idx - 1) = unat (k - idx) - 1"
    using z by (rule unat_minus_one)
  then have "unat (k - (idx + 1)) = unat (k - idx) - 1"
    by (simp only: e)
  moreover have "unat (k - idx) \<noteq> 0"
    using z by (simp add: unat_eq_zero)
  ultimately show ?thesis by linarith
qed

lemma nextProposerLoop_finds:
  assumes all: "\<forall>x \<in> set (proposers valSet). \<exists>v. x = Some v"
    and tgt: "weightedRandomProposer env valSet p (rnd + k) = Some v" "address v \<noteq> address c0"
  shows "\<exists>w. nextProposerLoop env valSet p c0 rnd idx = Some (Inr w) \<and>
           Some w \<in> set (proposers valSet) \<and> address w \<noteq> address c0"
proof (induction "unat (k - idx)" arbitrary: idx rule: less_induct)
  case less
  have ne: "proposers valSet \<noteq> []"
    using tgt(1) by (auto simp: weightedRandomProposer_def)
  have m: "weightedRandomProposer env valSet p (rnd + idx) \<in> set (proposers valSet)"
    using ne by (rule weightedRandomProposer_in_proposers)
  then obtain u where u: "weightedRandomProposer env valSet p (rnd + idx) = Some u"
    using all by blast
  show ?case
  proof (cases "address c0 = address u")
    case False
    then have "nextProposerLoop env valSet p c0 rnd idx = Some (Inr u)"
      using u by (subst nextProposerLoop.simps) simp
    then show ?thesis
      using False m u by auto
  next
    case True
    then have "k \<noteq> idx" using tgt u by auto
    then have "unat (k - (idx + 1)) < unat (k - idx)"
      by (rule word_pred_measure)
    then obtain w where "nextProposerLoop env valSet p c0 rnd (idx + 1) = Some (Inr w)"
      and "Some w \<in> set (proposers valSet)" and "address w \<noteq> address c0"
      using less by blast
    moreover have "nextProposerLoop env valSet p c0 rnd idx =
        nextProposerLoop env valSet p c0 rnd (idx + 1)"
      using u True by (subst nextProposerLoop.simps) simp
    ultimately show ?thesis by simp
  qed
qed

lemma length_filter_two_out:
  assumes "k0 < n" and "k1 < n" and "k0 \<noteq> k1"
  shows "length (filter (\<lambda>i. i \<noteq> k0 \<and> i \<noteq> k1) [0..<n]) = n - 2"
proof -
  have "{i. i \<noteq> k0 \<and> i \<noteq> k1} \<inter> set [0..<n] = {0..<n} - {k0, k1}"
    by auto
  then have "length (filter (\<lambda>i. i \<noteq> k0 \<and> i \<noteq> k1) [0..<n]) = card ({0..<n} - {k0, k1})"
    by (simp add: distinct_length_filter)
  also have "\<dots> = card {0..<n} - card {k0, k1}"
    using assms by (intro card_Diff_subset) auto
  also have "\<dots> = n - 2"
    using assms by simp
  finally show ?thesis .
qed

lemma distinct_map_nth:
  assumes "distinct xs" and "distinct js" and "\<forall>j \<in> set js. j < length xs"
  shows "distinct (map (\<lambda>j. xs ! j) js)"
proof -
  have "inj_on (\<lambda>j. xs ! j) (set js)"
    using assms(1,3) by (auto simp: inj_on_def nth_eq_iff_index_eq)
  then show ?thesis
    using assms(2) by (simp add: distinct_map)
qed

lemma pickCommittee_distinct:
  assumes contract: "\<And>r n. 0 < n \<Longrightarrow> fst (randIntn env r n) < n"
    and dist: "distinct (map address (validators valSet))"
    and K: "2 \<le> unat (subSize valSet)" "unat (subSize valSet) < length (validators valSet)"
    and c0: "c0 \<in> set (validators valSet)"
    and c1: "c1 \<in> set (validators valSet)"
    and ne: "address c0 \<noteq> address c1"
  shows "\<exists>committee. pickCommittee env valSet seed c0 c1 = Inr committee \<and>
           length committee = unat (subSize valSet) \<and>
           distinct (map address committee) \<and>
           set committee \<subseteq> set (validators valSet) \<and>
           committee ! 0 = c0 \<and> committee ! 1 = c1"
proof -
  let ?vals = "validators valSet"
  let ?n = "length ?vals"
  let ?K = "unat (subSize valSet)"
  have a0: "address c0 \<in> set (map address ?vals)" and a1: "address c1 \<in> set (map address ?vals)"
    using c0 c1 by auto
  obtain k0 v0 where g0: "getByAddressFrom 0 ?vals (address c0) = (0 + int k0, Some v0)"
    and k0: "k0 < ?n" and v0: "?vals ! k0 = v0" "address v0 = address c0"
    using getByAddressFrom_found [OF a0, of 0] by blast
  obtain k1 v1 where g1: "getByAddressFrom 0 ?vals (address c1) = (0 + int k1, Some v1)"
    and k1: "k1 < ?n" and v1: "?vals ! k1 = v1" "address v1 = address c1"
    using getByAddressFrom_found [OF a1, of 0] by blast
  have dv: "distinct ?vals"
    using dist by (simp add: distinct_map)
  have inj: "inj_on address (set ?vals)"
    using dist by (simp add: distinct_map)
  have e0: "?vals ! k0 = c0"
    using inj v0 c0 k0 by (auto simp: inj_on_def)
  have e1: "?vals ! k1 = c1"
    using inj v1 c1 k1 by (auto simp: inj_on_def)
  have k01: "k0 \<noteq> k1"
    using e0 e1 ne by auto
  let ?cands = "filter (\<lambda>i. i \<noteq> k0 \<and> i \<noteq> k1) [0..<?n]"
  have lc: "length ?cands = ?n - 2"
    using k0 k1 k01 by (rule length_filter_two_out)
  obtain indexs where sh: "shuffleLoop env 0 (?n - 2) ?cands (NewSource env seed) = Inr indexs"
    and li: "length indexs = length ?cands" and si: "set indexs = set ?cands"
    and di: "distinct indexs = distinct ?cands"
    using shuffleLoop_permutes [OF contract, of "?n - 2" ?cands 0 "NewSource env seed"] lc
    by auto
  let ?js = "take (?K - 2) indexs"
  let ?committee = "[c0, c1] @ map (\<lambda>i. ?vals ! i) ?js"
  have pc: "pickCommittee env valSet seed c0 c1 = Inr ?committee"
    using g0 g1 lc sh K by (simp add: pickCommittee_def getByAddress_def Let_def)
  have len: "length ?committee = ?K"
    using li lc K by simp
  have "set ?js \<subseteq> set indexs"
    by (rule set_take_subset)
  then have js_sub: "set ?js \<subseteq> set ?cands"
    using si by simp
  have js_d: "distinct ?js"
    using di by simp
  let ?is = "[k0, k1] @ ?js"
  have is_d: "distinct ?is"
    using js_d js_sub k01 by auto
  have is_lt: "\<forall>j \<in> set ?is. j < length (map address ?vals)"
    using js_sub k0 k1 by auto
  have eq: "map (\<lambda>j. map address ?vals ! j) ?is = map address ?committee"
    using is_lt e0 e1 by simp
  have "distinct (map (\<lambda>j. map address ?vals ! j) ?is)"
    using dist is_d is_lt by (rule distinct_map_nth)
  then have d: "distinct (map address ?committee)"
    by (simp only: eq)
  have sub: "set ?committee \<subseteq> set ?vals"
    using c0 c1 js_sub by auto
  show ?thesis
    using pc len d sub by simp
qed

text \<open>
  Claim C2, as amended: let the committee size \<open>k = subSize\<close> be at least 1 and smaller
  than the council, the validators have pairwise different addresses, \<open>p\<close> be the address
  of a validator, every proposer be a validator, the selector produce, at some round after
  the view's, a proposer whose address is not \<open>p\<close>, and \<open>Intn n\<close> stay below \<open>n\<close>. Then
  \<open>SubListWithProposer\<close> returns \<open>k\<close> validators of the council, pairwise distinct (by
  address too); the first has the address \<open>p\<close>, and the second, when \<open>k\<close> is at least 2, has
  another address.
\<close>

theorem SubListWithProposer_committee:
  assumes "1 \<le> unat (subSize valSet)"
    and "unat (subSize valSet) < length (validators valSet)"
    and "distinct (map address (validators valSet))"
    and "length prevHash = 32"
    and "p \<in> set (map address (validators valSet))"
    and "set (proposers valSet) \<subseteq> Some ` set (validators valSet)"
    and "\<exists>k v. weightedRandomProposer env valSet p (rnd + k) = Some v \<and> address v \<noteq> p"
    and "\<And>r n. 0 < n \<Longrightarrow> fst (randIntn env r n) < n"
  shows "\<exists>committee. SubListWithProposer env valSet prevHash p rnd = Some (Inr committee) \<and>
           length committee = unat (subSize valSet) \<and>
           distinct committee \<and> distinct (map address committee) \<and>
           set committee \<subseteq> set (validators valSet) \<and>
           address (committee ! 0) = p \<and>
           (2 \<le> unat (subSize valSet) \<longrightarrow> address (committee ! 1) \<noteq> p)"
proof -
  let ?vals = "validators valSet"
  obtain k0 c0 where g: "getByAddressFrom 0 ?vals p = (0 + int k0, Some c0)"
    and k0: "k0 < length ?vals" and c0: "?vals ! k0 = c0" "address c0 = p"
    using getByAddressFrom_found [OF assms(5), of 0] by blast
  have c0m: "c0 \<in> set ?vals"
    using k0 c0 by auto
  have nz: "subSize valSet \<noteq> 0"
    using assms(1) by auto
  show ?thesis
  proof (cases "subSize valSet = 1")
    case True
    then have "SubListWithProposer env valSet prevHash p rnd = Some (Inr [c0])"
      using assms(2,4) g by (simp add: SubListWithProposer_def hashSeed_32 getByAddress_def)
    then show ?thesis
      using True c0 c0m by simp
  next
    case False
    then have K: "2 \<le> unat (subSize valSet)"
      using nz by (metis One_nat_def Suc_1 Suc_leI assms(1) le_neq_implies_less unat_1 word_unat_eq_iff)
    obtain k v where tgt: "weightedRandomProposer env valSet p (rnd + k) = Some v"
      "address v \<noteq> address c0"
      using assms(7) c0 by auto
    have all: "\<forall>x \<in> set (proposers valSet). \<exists>v. x = Some v"
      using assms(6) by auto
    obtain c1 where l: "nextProposerLoop env valSet p c0 rnd 1 = Some (Inr c1)"
      and c1p: "Some c1 \<in> set (proposers valSet)" and c1a: "address c1 \<noteq> address c0"
      using nextProposerLoop_finds [OF all tgt, of 1] by blast
    have c1m: "c1 \<in> set ?vals"
      using c1p assms(6) by auto
    obtain seed where seed: "hashSeed prevHash = Inr seed"
      using assms(4) by (simp add: hashSeed_32)
    obtain committee where pc: "pickCommittee env valSet seed c0 c1 = Inr committee"
      and r: "length committee = unat (subSize valSet)" "distinct (map address committee)"
        "set committee \<subseteq> set ?vals" "committee ! 0 = c0" "committee ! 1 = c1"
      using pickCommittee_distinct [OF assms(8) assms(3) K assms(2) c0m c1m, of seed] c1a
      by metis
    have "SubListWithProposer env valSet prevHash p rnd = Some (Inr committee)"
      using assms(2) g nz False seed l pc
      by (simp add: SubListWithProposer_def getByAddress_def)
    moreover have "distinct committee"
      using r(2) by (simp add: distinct_map)
    ultimately show ?thesis
      using r c0 c1a by simp
  qed
qed

lemma sample_next: "weightedRandomProposer sampleEnv sampleCouncil 1 (0 + 1) = Some valC"
  by (simp add: weightedRandomProposer_def sampleCouncil_def sampleEnv_def)

lemma sample_loop: "nextProposerLoop sampleEnv sampleCouncil 1 valA 0 1 = Some (Inr valC)"
  using sample_next by (subst nextProposerLoop.simps) (simp add: sample_validators)

lemma sample_shuffle:
  "shuffleLoop sampleEnv 0 2 [Suc 0, 3] (NewSource sampleEnv 0x123456789abcdef) = Inr [Suc 0, 3]"
  by (simp add: shuffleLoop.simps Intn_def sampleEnv_def)

lemma sample_pick:
  "pickCommittee sampleEnv sampleCouncil 0x123456789abcdef valA valC = Inr [valA, valC, valB]"
proof -
  have g0: "fst (getByAddress sampleCouncil (address valA)) = 0"
    and g1: "fst (getByAddress sampleCouncil (address valC)) = 2"
    by (simp_all add: getByAddress_def sampleCouncil_def sample_validators)
  have l: "length (validators sampleCouncil) = 4"
    by (simp add: sampleCouncil_def)
  have c: "filter (\<lambda>i. int i \<noteq> 0 \<and> int i \<noteq> 2) [0..<4] = [Suc 0, 3]"
    by (simp add: numeral_eq_Suc)
  have "pickCommittee sampleEnv sampleCouncil 0x123456789abcdef valA valC =
      (case shuffleLoop sampleEnv 0 2 [Suc 0, 3] (NewSource sampleEnv 0x123456789abcdef) of
         Inl p \<Rightarrow> Inl p
       | Inr indexs \<Rightarrow>
           Inr ([valA, valC] @
                map (\<lambda>i. validators sampleCouncil ! i)
                  (take (unat (subSize sampleCouncil) - 2) indexs)))"
    unfolding pickCommittee_def Let_def g0 g1 l c by simp
  then show ?thesis
    unfolding sample_shuffle by (simp add: sampleCouncil_def)
qed

lemma sample_sublist:
  "SubListWithProposer sampleEnv sampleCouncil sampleHash 1 0 = Some (Inr [valA, valC, valB])"
proof -
  have g: "snd (getByAddress sampleCouncil 1) = Some valA"
    by (simp add: getByAddress_def sampleCouncil_def sample_validators)
  have s: "subSize sampleCouncil = 3" "length (validators sampleCouncil) = 4"
    by (simp_all add: sampleCouncil_def)
  show ?thesis
    unfolding SubListWithProposer_def hashSeed_sampleHash g s
    by (simp add: sample_loop sample_pick)
qed

text \<open>
  The instance of C2 at the sample council of four validators with committee size 3, the
  proposer at address 1 and round 0.
\<close>

theorem SubListWithProposer_committee_witness:
  "1 \<le> unat (subSize sampleCouncil) \<and>
   unat (subSize sampleCouncil) < length (validators sampleCouncil) \<and>
   distinct (map address (validators sampleCouncil)) \<and> length sampleHash = 32 \<and>
   1 \<in> set (map address (validators sampleCouncil)) \<and>
   set (proposers sampleCouncil) \<subseteq> Some ` set (validators sampleCouncil) \<and>
   weightedRandomProposer sampleEnv sampleCouncil 1 (0 + 1) = Some valC \<and> address valC \<noteq> 1 \<and>
   SubListWithProposer sampleEnv sampleCouncil sampleHash 1 0 = Some (Inr [valA, valC, valB])"
proof -
  have h: "1 \<le> unat (subSize sampleCouncil)"
    "unat (subSize sampleCouncil) < length (validators sampleCouncil)"
    "distinct (map address (validators sampleCouncil))" "length sampleHash = 32"
    "1 \<in> set (map address (validators sampleCouncil))"
    "set (proposers sampleCouncil) \<subseteq> Some ` set (validators sampleCouncil)"
    by (simp_all add: sampleCouncil_def sample_validators sampleHash_def zeros8_def)
  have a: "address valC \<noteq> 1"
    by (simp add: sample_validators)
  have n: "\<exists>k v. weightedRandomProposer sampleEnv sampleCouncil 1 (0 + k) = Some v \<and>
      address v \<noteq> 1"
    using sample_next a by blast
  show ?thesis
    using SubListWithProposer_committee [OF h n sampleEnv_contract] h a sample_next
      sample_sublist
    by simp
qed

text \<open>
  Claim C2 as stated fails for a committee as large as the council: the call returns the
  validators in the order of the council, whoever the proposer is. With the proposer at
  address 2, the first of the committee is the validator at address 1 and the second is
  the proposer.
\<close>

theorem SubListWithProposer_full_council:
  "unat (subSize (sampleCouncil\<lparr>subSize := 4\<rparr>)) \<le>
     length (validators (sampleCouncil\<lparr>subSize := 4\<rparr>)) \<and>
   2 \<in> set (map address (validators (sampleCouncil\<lparr>subSize := 4\<rparr>))) \<and>
   SubListWithProposer sampleEnv (sampleCouncil\<lparr>subSize := 4\<rparr>) sampleHash 2 0 =
     Some (Inr [valA, valB, valC, valD]) \<and>
   address valA \<noteq> 2 \<and> address valB = 2"
  by (simp add: SubListWithProposer_def sampleCouncil_def sample_validators)

text \<open>
  A committee size of 0 is outside the amended claim: the call then panics when it stores
  the proposer in slot 0 of the empty committee.
\<close>

lemma SubListWithProposer_no_seat:
  "SubListWithProposer sampleEnv (sampleCouncil\<lparr>subSize := 0\<rparr>) sampleHash 1 0 =
     Some (Inl IndexOutOfRange)"
  by (simp add: SubListWithProposer_def hashSeed_sampleHash getByAddress_def sampleCouncil_def
      sample_validators)

section \<open>Proposers are validators\<close>

lemma AddValidator_keeps:
  assumes "set (proposers valSet) \<subseteq> Some ` set (validators valSet)"
  shows "set (proposers (snd (AddValidator valSet addr))) \<subseteq>
         Some ` set (validators (snd (AddValidator valSet addr)))"
  using assms by (auto simp: AddValidator_def sortValidators_def)

lemma removeFirst_keeps:
  "removeFirst addr vals = Some vals' \<Longrightarrow> v \<in> set vals \<Longrightarrow> address v \<noteq> addr \<Longrightarrow>
   v \<in> set vals'"
  by (induction vals arbitrary: vals') (auto split: if_splits option.splits)

lemma removeValidatorFromProposers_result:
  assumes "\<forall>x \<in> set ps. \<exists>v. x = Some v"
  shows "\<exists>ps'. removeValidatorFromProposers addr ps = Inr ps' \<and>
           (\<forall>x \<in> set ps'. x \<in> set ps \<and> (\<exists>v. x = Some v \<and> address v \<noteq> addr))"
  using assms
proof (induction ps)
  case Nil
  show ?case by simp
next
  case (Cons x ps)
  then obtain v where x: "x = Some v" by auto
  obtain ps' where r: "removeValidatorFromProposers addr ps = Inr ps'"
    and k: "\<forall>x \<in> set ps'. x \<in> set ps \<and> (\<exists>v. x = Some v \<and> address v \<noteq> addr)"
    using Cons by auto
  show ?case
    using x r k by auto
qed

lemma RemoveValidator_keeps:
  assumes "set (proposers valSet) \<subseteq> Some ` set (validators valSet)"
  shows "\<exists>ok valSet'. RemoveValidator valSet addr = Inr (ok, valSet') \<and>
           set (proposers valSet') \<subseteq> Some ` set (validators valSet')"
proof (cases "removeFirst addr (validators valSet)")
  case None
  then have "RemoveValidator valSet addr = Inr (False, valSet)"
    by (simp add: RemoveValidator_def)
  then show ?thesis
    using assms by blast
next
  case (Some vals)
  have "\<forall>x \<in> set (proposers valSet). \<exists>v. x = Some v"
    using assms by auto
  then obtain ps' where r: "removeValidatorFromProposers addr (proposers valSet) = Inr ps'"
    and k: "\<forall>x \<in> set ps'. x \<in> set (proposers valSet) \<and> (\<exists>v. x = Some v \<and> address v \<noteq> addr)"
    using removeValidatorFromProposers_result by blast
  have "set ps' \<subseteq> Some ` set vals"
  proof
    fix x
    assume "x \<in> set ps'"
    then obtain v where "x = Some v" and "address v \<noteq> addr" and "x \<in> set (proposers valSet)"
      using k by blast
    moreover from this have "v \<in> set (validators valSet)"
      using assms by auto
    ultimately show "x \<in> Some ` set vals"
      using removeFirst_keeps [OF Some] by simp
  qed
  moreover have "RemoveValidator valSet addr =
      Inr (True, valSet\<lparr>validators := vals, proposers := ps'\<rparr>)"
    using Some r by (simp add: RemoveValidator_def)
  ultimately show ?thesis
    by auto
qed

lemma candidateIdxs_lt: "\<forall>i \<in> set (candidateIdxs vals). i < length vals"
  by (auto simp: candidateIdxs_def)

lemma refreshProposers_keeps:
  assumes "refreshProposers env valSet seed bn = Inr valSet'"
  shows "set (proposers valSet') \<subseteq> Some ` set (validators valSet')"
proof -
  let ?c = "if length (candidateIdxs (validators valSet)) = 0
            then [0..<length (validators valSet)] else candidateIdxs (validators valSet)"
  have lt: "\<forall>i \<in> set ?c. i < length (validators valSet)"
    using candidateIdxs_lt [of "validators valSet"] by auto
  obtain shuffled where s: "shuffleLoop env 0 (length ?c) ?c (NewSource env seed) = Inr shuffled"
    and v: "valSet' = valSet\<lparr>proposers := map (\<lambda>i. Some (validators valSet ! i)) shuffled,
                               proposersBlockNum := bn\<rparr>"
    using assms by (auto simp: refreshProposers_def Let_def split: sum.splits)
  have "set shuffled = set ?c"
    using shuffleLoop_keeps_set [OF s] by simp
  then have "\<forall>i \<in> set shuffled. i < length (validators valSet)"
    using lt by simp
  then show ?thesis
    unfolding v by auto
qed

lemma Refresh_keeps:
  assumes "set (proposers valSet) \<subseteq> Some ` set (validators valSet)"
    and "Refresh env valSet h bn = Inr (err, valSet')"
  shows "set (proposers valSet') \<subseteq> Some ` set (validators valSet')"
proof (cases "proposersBlockNum valSet = bn \<or> length (validators valSet) = 0")
  case True
  then show ?thesis
    using assms by (auto simp: Refresh_def split: if_splits)
next
  case False
  show ?thesis
  proof (cases "hashSeed h")
    case (Inl e)
    then show ?thesis
      using assms False by (simp add: Refresh_def)
  next
    case (Inr seed)
    show ?thesis
    proof (cases "GetStakingInfo env (bn + 1)")
      case None
      then show ?thesis
        using assms False Inr by (auto simp: Refresh_def)
    next
      case (Some si)
      then obtain s1 where "refreshProposers env s1 seed bn = Inr valSet'"
        using assms(2) False Inr
        by (auto simp: Refresh_def split: sum.splits prod.splits)
      then show ?thesis
        by (rule refreshProposers_keeps)
    qed
  qed
qed

lemma indexOfFrom_bound: "indexOfFrom i xs a = Some k \<Longrightarrow> k < i + length xs"
proof (induction xs arbitrary: i)
  case Nil
  then show ?case by simp
next
  case (Cons x xs)
  show ?case
  proof (cases "x = a")
    case True
    then show ?thesis using Cons.prems by simp
  next
    case False
    then have "indexOfFrom (Suc i) xs a = Some k" using Cons.prems by simp
    then have "k < Suc i + length xs" by (rule Cons.IH)
    then show ?thesis by simp
  qed
qed

lemma firstWithReward_bound: "firstWithReward i ws a = Some k \<Longrightarrow> k < i + length ws"
proof (induction ws arbitrary: i)
  case Nil
  then show ?case by simp
next
  case (Cons w ws)
  show ?case
  proof (cases "rewardAddress w = a")
    case True
    then show ?thesis using Cons.prems by simp
  next
    case False
    then have "firstWithReward (Suc i) ws a = Some k" using Cons.prems by simp
    then have "k < Suc i + length ws" by (rule Cons.IH)
    then show ?thesis by simp
  qed
qed

lemma stakingOfValidators_total:
  assumes "length (CouncilRewardAddrs si) = length (CouncilNodeAddrs si)"
    and "length (CouncilStakingAmounts si) = length (CouncilNodeAddrs si)"
    and "length added = length (CouncilNodeAddrs si)"
  shows "\<exists>ws amounts added'. stakingOfValidators env si vals added = Inr (ws, amounts, added') \<and>
           length ws = length vals \<and> length amounts = length vals \<and>
           length added' = length (CouncilNodeAddrs si)"
  using assms(3)
proof (induction vals arbitrary: added)
  case Nil
  then show ?case by simp
next
  case (Cons val vals)
  show ?case
  proof (cases "GetIndexByNodeAddress si (address val)")
    case None
    obtain ws amounts added' where
      "stakingOfValidators env si vals added = Inr (ws, amounts, added')"
      "length ws = length vals" "length amounts = length vals"
      "length added' = length (CouncilNodeAddrs si)"
      using Cons.IH [OF Cons.prems] by blast
    then show ?thesis
      using None by simp
  next
    case (Some sIdx)
    then have b: "sIdx < length (CouncilNodeAddrs si)"
      using indexOfFrom_bound [of 0 "CouncilNodeAddrs si" "address val" sIdx]
      by (simp add: GetIndexByNodeAddress_def)
    have "length (added[sIdx := True]) = length (CouncilNodeAddrs si)"
      using Cons.prems by simp
    then obtain ws amounts added' where
      "stakingOfValidators env si vals (added[sIdx := True]) = Inr (ws, amounts, added')"
      "length ws = length vals" "length amounts = length vals"
      "length added' = length (CouncilNodeAddrs si)"
      using Cons.IH by blast
    then show ?thesis
      using Some b assms(1,2) Cons.prems by simp
  qed
qed

lemma addUnclaimedStaking_total:
  assumes "length (CouncilRewardAddrs si) = length (CouncilNodeAddrs si)"
    and "length (CouncilStakingAmounts si) = length (CouncilNodeAddrs si)"
    and "\<forall>s \<in> set sIdxs. s < length (CouncilNodeAddrs si)"
    and "length amounts = length ws"
  shows "\<exists>amounts'. addUnclaimedStaking env si ws sIdxs added amounts = Inr amounts' \<and>
           length amounts' = length ws"
  using assms(3,4)
proof (induction sIdxs arbitrary: amounts)
  case Nil
  then show ?case by simp
next
  case (Cons sIdx rest)
  have r: "\<forall>s \<in> set rest. s < length (CouncilNodeAddrs si)"
    and s: "sIdx < length (CouncilNodeAddrs si)"
    using Cons.prems(1) by simp_all
  show ?case
  proof (cases "added ! sIdx \<or> ws = []")
    case True
    then show ?thesis
      using Cons.IH [OF r Cons.prems(2)] by auto
  next
    case False
    show ?thesis
    proof (cases "firstWithReward 0 ws (CouncilRewardAddrs si ! sIdx)")
      case None
      then show ?thesis
        using False s assms(1) Cons.IH [OF r Cons.prems(2)] by auto
    next
      case (Some vIdx)
      then have v: "vIdx < length amounts"
        using firstWithReward_bound [of 0 ws _ vIdx] Cons.prems(2) by simp
      let ?a = "amounts[vIdx := fl env (amounts ! vIdx +
                  uint64ToFloat64 env (CouncilStakingAmounts si ! sIdx))]"
      have "length ?a = length ws"
        using Cons.prems(2) by simp
      then obtain amounts' where
        "addUnclaimedStaking env si ws rest added ?a = Inr amounts'" "length amounts' = length ws"
        using Cons.IH [OF r] by blast
      then show ?thesis
        using False Some s v assms(1,2) by auto
    qed
  qed
qed

lemma getStakingAmountsOfValidators_total:
  assumes "length (CouncilRewardAddrs si) = length (CouncilNodeAddrs si)"
    and "length (CouncilStakingAmounts si) = length (CouncilNodeAddrs si)"
  shows "\<exists>ws amounts. getStakingAmountsOfValidators env valSet si = Inr (ws, amounts) \<and>
           length amounts = length ws"
proof -
  obtain ws amounts added where
    a: "stakingOfValidators env si (validators valSet)
          (replicate (length (CouncilNodeAddrs si)) False) = Inr (ws, amounts, added)"
    and l: "length amounts = length (validators valSet)" "length ws = length (validators valSet)"
      "length added = length (CouncilNodeAddrs si)"
    using stakingOfValidators_total
      [OF assms, where added = "replicate (length (CouncilNodeAddrs si)) False"
         and vals = "validators valSet" and env = env]
    by auto
  have "\<forall>s \<in> set [0..<length added]. s < length (CouncilNodeAddrs si)"
    using l(3) by simp
  then obtain amounts' where
    "addUnclaimedStaking env si ws [0..<length added] added amounts = Inr amounts'"
    "length amounts' = length ws"
    using addUnclaimedStaking_total
      [OF assms, where sIdxs = "[0..<length added]" and amounts = amounts and ws = ws
         and env = env and added = added] l
    by auto
  then show ?thesis
    using a by (simp add: getStakingAmountsOfValidators_def)
qed

lemma calcTotalAmount_length:
  "calcTotalAmount env ws si amounts = (tot, amounts', si') \<Longrightarrow>
   length amounts' = length amounts"
  by (auto simp: calcTotalAmount_def Let_def split: if_splits)

lemma calcWeight_total:
  "length ws \<le> length amounts \<Longrightarrow> \<exists>ws'. calcWeight env ws amounts tot = Inr ws'"
  by (simp add: calcWeight_def)

lemma refreshProposers_total:
  assumes "\<And>r n. 0 < n \<Longrightarrow> fst (randIntn env r n) < n"
  shows "\<exists>valSet'. refreshProposers env valSet seed bn = Inr valSet'"
proof -
  let ?c = "if length (candidateIdxs (validators valSet)) = 0
            then [0..<length (validators valSet)] else candidateIdxs (validators valSet)"
  obtain ys where "shuffleLoop env 0 (length ?c) ?c (NewSource env seed) = Inr ys"
    using shuffleLoop_permutes
      [OF assms refl, where xs = ?c and i = 0 and r = "NewSource env seed"]
    by blast
  then show ?thesis
    by (simp add: refreshProposers_def Let_def)
qed

lemma Refresh_total:
  assumes contract: "\<And>r n. 0 < n \<Longrightarrow> fst (randIntn env r n) < n"
    and aligned: "\<And>si. GetStakingInfo env (bn + 1) = Some si \<Longrightarrow>
      length (CouncilRewardAddrs si) = length (CouncilNodeAddrs si) \<and>
      length (CouncilStakingAmounts si) = length (CouncilNodeAddrs si)"
  shows "\<exists>err valSet'. Refresh env valSet h bn = Inr (err, valSet')"
proof (cases "proposersBlockNum valSet = bn \<or> length (validators valSet) = 0")
  case True
  then show ?thesis
    by (auto simp: Refresh_def)
next
  case False
  show ?thesis
  proof (cases "hashSeed h")
    case (Inl e)
    then show ?thesis
      using False by (simp add: Refresh_def)
  next
    case (Inr seed)
    show ?thesis
    proof (cases "GetStakingInfo env (bn + 1)")
      case None
      then show ?thesis
        using False Inr by (simp add: Refresh_def)
    next
      case (Some si)
      obtain ws amounts where g: "getStakingAmountsOfValidators env valSet si = Inr (ws, amounts)"
        and l: "length amounts = length ws"
        using getStakingAmountsOfValidators_total aligned [OF Some] by blast
      obtain tot amounts' si' where c: "calcTotalAmount env ws si amounts = (tot, amounts', si')"
        by (cases "calcTotalAmount env ws si amounts")
      then have "length amounts' = length ws"
        using calcTotalAmount_length l by fastforce
      then obtain ws' where w: "calcWeight env ws amounts' tot = Inr ws'"
        using calcWeight_total [of ws amounts'] by auto
      obtain valSet' where
        "refreshProposers env (valSet\<lparr>validators := ws', stakingInfo := Some si'\<rparr>) seed bn =
           Inr valSet'"
        using refreshProposers_total [OF contract] by blast
      then show ?thesis
        using False Inr Some g c w by (simp add: Refresh_def)
    qed
  qed
qed

lemma NewWeightedCouncil_membership:
  assumes "NewWeightedCouncil addrs rewards votingPowers weights policy committeeSize bn pbn
             chainIsNil = Inr (Some valSet0)"
  shows "set (proposers valSet0) \<subseteq> Some ` set (validators valSet0)"
proof -
  have "proposers valSet0 = map Some (validators valSet0)"
    using assms by (auto simp: NewWeightedCouncil_def Let_def split: if_splits)
  then show ?thesis by auto
qed

lemma CalcProposer_returns:
  "\<exists>valSet'. CalcProposer env valSet lastProposer rnd = Inr valSet' \<and>
     validators valSet' = validators valSet \<and> proposers valSet' = proposers valSet"
proof (cases "weightedRandomProposer env valSet lastProposer rnd")
  case (Some newProposer)
  then show ?thesis
    by (simp add: CalcProposer_def)
next
  case None
  show ?thesis
  proof (cases "validators valSet = []")
    case True
    with None show ?thesis
      by (simp add: CalcProposer_def)
  next
    case False
    then obtain v where "chooseProposerByRoundRobin valSet lastProposer rnd = Inr v"
      using chooseProposerByRoundRobin_total by blast
    with None False show ?thesis
      by (simp add: CalcProposer_def)
  qed
qed

lemma applyOperation_keeps:
  assumes "set (proposers valSet) \<subseteq> Some ` set (validators valSet)"
    and "applyOperation env valSet x = Inr valSet'"
  shows "set (proposers valSet') \<subseteq> Some ` set (validators valSet')"
proof (cases x)
  case (AddValidatorOp addr)
  then show ?thesis
    using assms AddValidator_keeps [OF assms(1), of addr] by simp
next
  case (RemoveValidatorOp addr)
  then show ?thesis
    using assms RemoveValidator_keeps [OF assms(1), of addr] by (auto split: sum.splits)
next
  case (RefreshOp h bn)
  then obtain err where "Refresh env valSet h bn = Inr (err, valSet')"
    using assms(2) by (auto split: sum.splits)
  with assms(1) show ?thesis
    by (rule Refresh_keeps)
next
  case (CalcProposerOp lastProposer rnd)
  then show ?thesis
    using assms CalcProposer_returns [of env valSet lastProposer rnd] by auto
next
  case (SetSubGroupSizeOp n)
  then show ?thesis
    using assms by (auto simp: SetSubGroupSize_def)
next
  case (SetBlockNumOp bn)
  then show ?thesis
    using assms by (auto simp: SetBlockNum_def)
qed

lemma applyOperation_total:
  assumes "set (proposers valSet) \<subseteq> Some ` set (validators valSet)"
    and contract: "\<And>r n. 0 < n \<Longrightarrow> fst (randIntn env r n) < n"
    and aligned: "\<And>b si. GetStakingInfo env b = Some si \<Longrightarrow>
      length (CouncilRewardAddrs si) = length (CouncilNodeAddrs si) \<and>
      length (CouncilStakingAmounts si) = length (CouncilNodeAddrs si)"
  shows "\<exists>valSet'. applyOperation env valSet x = Inr valSet'"
proof (cases x)
  case (AddValidatorOp addr)
  then show ?thesis by simp
next
  case (RemoveValidatorOp addr)
  then show ?thesis
    using RemoveValidator_keeps [OF assms(1), of addr] by auto
next
  case (RefreshOp h bn)
  have "\<exists>err valSet'. Refresh env valSet h bn = Inr (err, valSet')"
  proof (rule Refresh_total)
    show "\<And>r n. 0 < n \<Longrightarrow> fst (randIntn env r n) < n"
      by (rule contract)
    show "\<And>si. GetStakingInfo env (bn + 1) = Some si \<Longrightarrow>
        length (CouncilRewardAddrs si) = length (CouncilNodeAddrs si) \<and>
        length (CouncilStakingAmounts si) = length (CouncilNodeAddrs si)"
      by (rule aligned)
  qed
  then show ?thesis
    using RefreshOp by auto
next
  case (CalcProposerOp lastProposer rnd)
  then show ?thesis
    using CalcProposer_returns [of env valSet lastProposer rnd] by auto
next
  case (SetSubGroupSizeOp n)
  then show ?thesis by simp
next
  case (SetBlockNumOp bn)
  then show ?thesis by simp
qed

lemma applyOperations_keeps:
  "set (proposers valSet) \<subseteq> Some ` set (validators valSet) \<Longrightarrow>
   applyOperations env valSet ops = Inr valSet' \<Longrightarrow>
   set (proposers valSet') \<subseteq> Some ` set (validators valSet')"
proof (induction ops arbitrary: valSet)
  case Nil
  then show ?case by simp
next
  case (Cons x xs)
  then obtain valSet1 where a: "applyOperation env valSet x = Inr valSet1"
    and b: "applyOperations env valSet1 xs = Inr valSet'"
    by (auto split: sum.splits)
  have "set (proposers valSet1) \<subseteq> Some ` set (validators valSet1)"
    using Cons.prems(1) a by (rule applyOperation_keeps)
  then show ?case
    using b by (rule Cons.IH)
qed

lemma applyOperations_total:
  assumes contract: "\<And>r n. 0 < n \<Longrightarrow> fst (randIntn env r n) < n"
    and aligned: "\<And>b si. GetStakingInfo env b = Some si \<Longrightarrow>
      length (CouncilRewardAddrs si) = length (CouncilNodeAddrs si) \<and>
      length (CouncilStakingAmounts si) = length (CouncilNodeAddrs si)"
  shows "set (proposers valSet) \<subseteq> Some ` set (validators valSet) \<Longrightarrow>
         \<exists>valSet'. applyOperations env valSet ops = Inr valSet'"
proof (induction ops arbitrary: valSet)
  case Nil
  then show ?case by simp
next
  case (Cons x xs)
  have "\<exists>valSet1. applyOperation env valSet x = Inr valSet1"
  proof (rule applyOperation_total)
    show "set (proposers valSet) \<subseteq> Some ` set (validators valSet)"
      by (rule Cons.prems)
    show "\<And>r n. 0 < n \<Longrightarrow> fst (randIntn env r n) < n"
      by (rule contract)
    show "\<And>b si. GetStakingInfo env b = Some si \<Longrightarrow>
        length (CouncilRewardAddrs si) = length (CouncilNodeAddrs si) \<and>
        length (CouncilStakingAmounts si) = length (CouncilNodeAddrs si)"
      by (rule aligned)
  qed
  then obtain valSet1 where a: "applyOperation env valSet x = Inr valSet1"
    by blast
  have "set (proposers valSet1) \<subseteq> Some ` set (validators valSet1)"
    using Cons.prems a by (rule applyOperation_keeps)
  then obtain valSet' where "applyOperations env valSet1 xs = Inr valSet'"
    using Cons.IH by blast
  then show ?case
    using a by simp
qed

text \<open>
  Claim C3, as amended: in the council that \<open>NewWeightedCouncil\<close> builds, every proposer is
  a validator of the council, and it is so again after every history of calls of
  \<open>AddValidator\<close>, \<open>RemoveValidator\<close>, \<open>Refresh\<close> (with or without an error), \<open>CalcProposer\<close>
  and the two setters: the construction establishes the membership and each of these calls
  preserves it. No call of such a history panics when \<open>Intn n\<close> stays below \<open>n\<close> and the
  staking information has as many reward addresses and staking amounts as node addresses.
  \<open>ReplaceValidators\<close> is not among the calls.
\<close>

theorem proposers_stay_validators:
  assumes "NewWeightedCouncil addrs rewards votingPowers weights policy committeeSize bn pbn
             chainIsNil = Inr (Some valSet0)"
  shows "set (proposers valSet0) \<subseteq> Some ` set (validators valSet0) \<and>
         (\<forall>valSet. applyOperations env valSet0 ops = Inr valSet \<longrightarrow>
            set (proposers valSet) \<subseteq> Some ` set (validators valSet)) \<and>
         ((\<forall>r n. 0 < n \<longrightarrow> fst (randIntn env r n) < n) \<and>
          (\<forall>b si. GetStakingInfo env b = Some si \<longrightarrow>
             length (CouncilRewardAddrs si) = length (CouncilNodeAddrs si) \<and>
             length (CouncilStakingAmounts si) = length (CouncilNodeAddrs si)) \<longrightarrow>
          (\<exists>valSet. applyOperations env valSet0 ops = Inr valSet))"
proof -
  have i: "set (proposers valSet0) \<subseteq> Some ` set (validators valSet0)"
    using assms by (rule NewWeightedCouncil_membership)
  have k: "\<forall>valSet. applyOperations env valSet0 ops = Inr valSet \<longrightarrow>
      set (proposers valSet) \<subseteq> Some ` set (validators valSet)"
    using i applyOperations_keeps by blast
  have t: "\<exists>valSet. applyOperations env valSet0 ops = Inr valSet"
    if c: "\<forall>r n. 0 < n \<longrightarrow> fst (randIntn env r n) < n"
      and a: "\<forall>b si. GetStakingInfo env b = Some si \<longrightarrow>
         length (CouncilRewardAddrs si) = length (CouncilNodeAddrs si) \<and>
         length (CouncilStakingAmounts si) = length (CouncilNodeAddrs si)"
  proof (rule applyOperations_total)
    show "\<And>r n. 0 < n \<Longrightarrow> fst (randIntn env r n) < n"
      using c by blast
    show "\<And>b si. GetStakingInfo env b = Some si \<Longrightarrow>
        length (CouncilRewardAddrs si) = length (CouncilNodeAddrs si) \<and>
        length (CouncilStakingAmounts si) = length (CouncilNodeAddrs si)"
      using a by blast
    show "set (proposers valSet0) \<subseteq> Some ` set (validators valSet0)"
      by (rule i)
  qed
  show ?thesis
    using i k t by blast
qed

text \<open>
  The instance of C3 at the sample council, which \<open>NewWeightedCouncil\<close> builds for the
  addresses 1 to 4: address 9 added, address 2 removed, a refresh at block 30 and a new
  proposer.
\<close>

lemma sampleCouncil_constructed:
  "NewWeightedCouncil [1, 2, 3, 4] None None None WeightedRandom 3 5 0 False =
     Inr (Some sampleCouncil)"
  by (simp add: NewWeightedCouncil_def sortValidators_def sampleCouncil_def sample_validators)

lemma sampleEnv_aligned:
  "GetStakingInfo sampleEnv b = Some si \<Longrightarrow>
   length (CouncilRewardAddrs si) = length (CouncilNodeAddrs si) \<and>
   length (CouncilStakingAmounts si) = length (CouncilNodeAddrs si)"
  by (auto simp: sampleEnv_def zeroStaking_def sampleStaking_def split: if_splits)

theorem proposers_stay_validators_witness:
  "NewWeightedCouncil [1, 2, 3, 4] None None None WeightedRandom 3 5 0 False =
     Inr (Some sampleCouncil) \<and>
   set (proposers sampleCouncil) \<subseteq> Some ` set (validators sampleCouncil) \<and>
   applyOperations sampleEnv sampleCouncil [AddValidatorOp 9, RemoveValidatorOp 2] =
     Inr (sampleCouncil\<lparr>validators := [valA, valC, valD, newWeightedValidator 9 0 1000 0],
                        proposers := [Some valA, Some valC, Some valD]\<rparr>) \<and>
   (\<exists>valSet. applyOperations sampleEnv sampleCouncil
       [AddValidatorOp 9, RemoveValidatorOp 2, RefreshOp sampleHash 30, CalcProposerOp 1 2] =
         Inr valSet \<and>
      set (proposers valSet) \<subseteq> Some ` set (validators valSet))"
proof -
  note t = proposers_stay_validators [OF sampleCouncil_constructed, of sampleEnv
      "[AddValidatorOp 9, RemoveValidatorOp 2, RefreshOp sampleHash 30, CalcProposerOp 1 2]"]
  have c: "\<forall>r n. 0 < n \<longrightarrow> fst (randIntn sampleEnv r n) < n"
    using sampleEnv_contract by blast
  have s: "\<forall>b si. GetStakingInfo sampleEnv b = Some si \<longrightarrow>
      length (CouncilRewardAddrs si) = length (CouncilNodeAddrs si) \<and>
      length (CouncilStakingAmounts si) = length (CouncilNodeAddrs si)"
    using sampleEnv_aligned by blast
  have a: "applyOperations sampleEnv sampleCouncil [AddValidatorOp 9, RemoveValidatorOp 2] =
     Inr (sampleCouncil\<lparr>validators := [valA, valC, valD, newWeightedValidator 9 0 1000 0],
                        proposers := [Some valA, Some valC, Some valD]\<rparr>)"
    by (simp add: AddValidator_def RemoveValidator_def sortValidators_def sampleCouncil_def
        sample_validators)
  obtain valSet where f: "applyOperations sampleEnv sampleCouncil
       [AddValidatorOp 9, RemoveValidatorOp 2, RefreshOp sampleHash 30, CalcProposerOp 1 2] =
         Inr valSet"
    using t c s by blast
  then have "set (proposers valSet) \<subseteq> Some ` set (validators valSet)"
    using t by blast
  then show ?thesis
    using sampleCouncil_constructed t a f by blast
qed

text \<open>
  Claim C3 as stated fails for \<open>ReplaceValidators\<close>: it replaces the validators of the
  council just built and leaves the proposers, which then are validators no more.
\<close>

theorem ReplaceValidators_breaks_membership:
  "NewWeightedCouncil [1, 2, 3, 4] None None None WeightedRandom 3 5 0 False =
     Inr (Some sampleCouncil) \<and>
   set (proposers sampleCouncil) \<subseteq> Some ` set (validators sampleCouncil) \<and>
   ReplaceValidators sampleCouncil [valA] = (True, sampleCouncil\<lparr>validators := [valA]\<rparr>) \<and>
   \<not> set (proposers (snd (ReplaceValidators sampleCouncil [valA]))) \<subseteq>
       Some ` set (validators (snd (ReplaceValidators sampleCouncil [valA])))"
  using sampleCouncil_constructed
  by (simp add: ReplaceValidators_def sampleCouncil_def sample_validators)

end
